theory Spec2Isabelle
  imports Complex_Main "HOL-Library.Sublist" "HOL-Library.List_Lexorder" "HOL-Library.Char_ord"
begin

section \<open>Text\<close>

text \<open>
  The strings that the store keeps and the tools print are modelled as \<^typ>\<open>string\<close>,
  the UTF-8 bytes of the Python string: equality, concatenation, sorting and the substring
  test \<^verbatim>\<open>in\<close> of well-formed text agree on the bytes and on the code points. The
  pictographs of the reply texts are written as their UTF-8 bytes.

  The functions of this section are the builtins on ASCII text: on it \<^verbatim>\<open>str.lower\<close>
  and \<^verbatim>\<open>str.upper\<close> change exactly the 26 letters, the class \<^verbatim>\<open>[A-Za-z]\<close> is the
  letters (also under \<^verbatim>\<open>re.IGNORECASE\<close>), \<^verbatim>\<open>\d\<close> is \<^verbatim>\<open>0-9\<close> and \<^verbatim>\<open>\s\<close> is
  the characters for which \<^verbatim>\<open>str.isspace\<close> holds. Where a result is stated for all
  strings, Unicode included, the builtin is a parameter instead: \<open>str_lower\<close> for
  \<^verbatim>\<open>str.lower\<close>, \<open>str_upper\<close> for \<^verbatim>\<open>str.upper\<close> and \<open>is_decimal\<close> for the code
  points that \<^verbatim>\<open>\d\<close> matches.
\<close>

definition is_upper :: "char \<Rightarrow> bool" where
  "is_upper c = (let n = (of_char c :: nat) in 65 \<le> n \<and> n \<le> 90)"

definition is_lower :: "char \<Rightarrow> bool" where
  "is_lower c = (let n = (of_char c :: nat) in 97 \<le> n \<and> n \<le> 122)"

definition is_alpha :: "char \<Rightarrow> bool" where
  "is_alpha c = (is_upper c \<or> is_lower c)"

definition is_digit :: "char \<Rightarrow> bool" where
  "is_digit c = (let n = (of_char c :: nat) in 48 \<le> n \<and> n \<le> 57)"

definition is_space :: "char \<Rightarrow> bool" where
  "is_space c = (let n = (of_char c :: nat) in (9 \<le> n \<and> n \<le> 13) \<or> (28 \<le> n \<and> n \<le> 32))"

definition lower_char :: "char \<Rightarrow> char" where
  "lower_char c = (if is_upper c then char_of ((of_char c :: nat) + 32) else c)"

definition upper_char :: "char \<Rightarrow> char" where
  "upper_char c = (if is_lower c then char_of ((of_char c :: nat) - 32) else c)"

definition lower :: "string \<Rightarrow> string" where
  "lower s = map lower_char s"

text \<open>\<^verbatim>\<open>str.title\<close>: a letter that follows a letter is lowered, any other letter is raised.\<close>

fun title_from :: "bool \<Rightarrow> string \<Rightarrow> string" where
  "title_from prev [] = []"
| "title_from prev (c # cs) =
     (if is_alpha c then (if prev then lower_char c else upper_char c) # title_from True cs
      else c # title_from False cs)"

definition title :: "string \<Rightarrow> string" where
  "title s = title_from False s"

text \<open>Python's \<^verbatim>\<open>needle in hay\<close> on strings.\<close>

fun contains :: "string \<Rightarrow> string \<Rightarrow> bool" where
  "contains needle [] = (needle = [])"
| "contains needle (c # cs) = (prefix needle (c # cs) \<or> contains needle cs)"

text \<open>Truth value of an \<^verbatim>\<open>Optional[str]\<close>: \<^verbatim>\<open>None\<close> and the empty string are false.\<close>

fun truthy :: "string option \<Rightarrow> bool" where
  "truthy None = False"
| "truthy (Some s) = (s \<noteq> [])"

section \<open>MessageParser\<close>

text \<open>
  \<^verbatim>\<open>re.search\<close>: the pattern is tried at every position from the left, the end of
  the text included, and the first position where it matches wins.
\<close>

fun re_search :: "('c list \<Rightarrow> 'a option) \<Rightarrow> 'c list \<Rightarrow> 'a option" where
  "re_search m [] = m []"
| "re_search m (c # cs) = (case m (c # cs) of Some g \<Rightarrow> Some g | None \<Rightarrow> re_search m cs)"

text \<open>
  The pieces of the patterns, each matching at the start of the text. The classes that
  follow one another are disjoint (letters, white space, digits), so a greedy quantifier
  that took fewer characters would leave a character its successor cannot take: the
  greedy choice is the only one the backtracking matcher can succeed with.
\<close>

definition match_lit_ci :: "string \<Rightarrow> string \<Rightarrow> string option" where
  \<comment> \<open>a literal under \<^verbatim>\<open>re.IGNORECASE\<close>; the rest of the text\<close>
  "match_lit_ci lit s =
     (if length lit \<le> length s \<and> lower (take (length lit) s) = lower lit
      then Some (drop (length lit) s) else None)"

definition match_spaces :: "string \<Rightarrow> string option" where
  \<comment> \<open>\<^verbatim>\<open>\s+\<close>; the rest of the text\<close>
  "match_spaces s = (if takeWhile is_space s = [] then None else Some (dropWhile is_space s))"

definition match_name :: "string \<Rightarrow> string option" where
  \<comment> \<open>\<^verbatim>\<open>([A-Za-z]+(?:\s+[A-Za-z]+)?)\<close>; the text of the group\<close>
  "match_name s =
     (let w1 = takeWhile is_alpha s; r1 = dropWhile is_alpha s;
          ws = takeWhile is_space r1; w2 = takeWhile is_alpha (dropWhile is_space r1)
      in if w1 = [] then None
         else if ws \<noteq> [] \<and> w2 \<noteq> [] then Some (w1 @ ws @ w2)
         else Some w1)"

definition spaces_then_name :: "string \<Rightarrow> string option" where
  "spaces_then_name s = Option.bind (match_spaces s) match_name"

definition name_pattern1 :: "string \<Rightarrow> string option" where
  \<comment> \<open>\<^verbatim>\<open>(?:for|patient)\s+([A-Za-z]+(?:\s+[A-Za-z]+)?)\<close>\<close>
  "name_pattern1 s =
     (case Option.bind (match_lit_ci ''for'' s) spaces_then_name of
        Some g \<Rightarrow> Some g
      | None \<Rightarrow> Option.bind (match_lit_ci ''patient'' s) spaces_then_name)"

definition name_pattern2 :: "string \<Rightarrow> string option" where
  \<comment> \<open>\<^verbatim>\<open>appointment\s+for\s+([A-Za-z]+(?:\s+[A-Za-z]+)?)\<close>\<close>
  "name_pattern2 s =
     Option.bind (match_lit_ci ''appointment'' s) (\<lambda>r1.
     Option.bind (match_spaces r1) (\<lambda>r2.
     Option.bind (match_lit_ci ''for'' r2) spaces_then_name))"

definition name_pattern3 :: "string \<Rightarrow> string option" where
  \<comment> \<open>\<^verbatim>\<open>book\s+([A-Za-z]+(?:\s+[A-Za-z]+)?)\<close>\<close>
  "name_pattern3 s = Option.bind (match_lit_ci ''book'' s) spaces_then_name"

fun first_match :: "(string \<Rightarrow> string option) list \<Rightarrow> string \<Rightarrow> string option" where
  "first_match [] message = None"
| "first_match (p # ps) message =
     (case re_search p message of Some g \<Rightarrow> Some (title g) | None \<Rightarrow> first_match ps message)"

definition extract_patient_name :: "string \<Rightarrow> string option" where
  "extract_patient_name message =
     first_match [name_pattern1, name_pattern2, name_pattern3] message"

text \<open>The keyword tables are dictionaries; Python iterates them in insertion order.\<close>

definition specialties :: "(string \<times> string list) list" where
  "specialties =
     [(''cardiology'', [''cardiology'', ''cardiologist'', ''heart'', ''cardiac'']),
      (''dermatology'', [''dermatology'', ''dermatologist'', ''skin'']),
      (''pediatrics'', [''pediatrics'', ''pediatrician'', ''child'', ''children'', ''kids'']),
      (''orthopedics'', [''orthopedics'', ''orthopedic'', ''bone'', ''joint'']),
      (''neurology'', [''neurology'', ''neurologist'', ''brain'', ''nerve''])]"

definition message_time_patterns :: "(string \<times> string list) list" where
  "message_time_patterns =
     [(''morning'', [''morning'', ''9:00'', ''10:00'', ''11:00'']),
      (''afternoon'', [''afternoon'', ''14:00'', ''15:00'', ''16:00'']),
      (''evening'', [''evening'', ''17:00'', ''18:00''])]"

fun first_keyword_hit :: "(string \<times> string list) list \<Rightarrow> string \<Rightarrow> string option" where
  "first_keyword_hit [] message_lower = None"
| "first_keyword_hit ((tag, keywords) # rest) message_lower =
     (if list_ex (\<lambda>keyword. contains keyword message_lower) keywords then Some tag
      else first_keyword_hit rest message_lower)"

definition extract_specialty :: "string \<Rightarrow> string option" where
  "extract_specialty message = first_keyword_hit specialties (lower message)"

definition extract_time_preference :: "string \<Rightarrow> string option" where
  "extract_time_preference message = first_keyword_hit message_time_patterns (lower message)"

definition doctor_id_at :: "string \<Rightarrow> string option" where
  \<comment> \<open>\<^verbatim>\<open>(dr\d+)\<close>\<close>
  "doctor_id_at s =
     (if prefix ''dr'' s \<and> takeWhile is_digit (drop 2 s) \<noteq> []
      then Some (''dr'' @ takeWhile is_digit (drop 2 s)) else None)"

definition extract_doctor_id :: "string \<Rightarrow> string option" where
  "extract_doctor_id message = re_search doctor_id_at (lower message)"

text \<open>
  The appointment identifier, in \<^verbatim>\<open>process_user_message\<close>:
  \<^verbatim>\<open>re.search(r'(APT\d{4})', message.upper())\<close>. The class \<^verbatim>\<open>\d\<close> is a class of code
  points (every Unicode decimal digit) and \<^verbatim>\<open>str.upper\<close> works on code points, so the
  message is the list of its code points here, and the two builtins are parameters.
\<close>

type_synonym code_points = "nat list"

definition text_of :: "string \<Rightarrow> code_points" where
  \<comment> \<open>the code points of an ASCII literal\<close>
  "text_of s = map of_char s"

definition appointment_id_at :: "(nat \<Rightarrow> bool) \<Rightarrow> code_points \<Rightarrow> code_points option" where
  \<comment> \<open>\<^verbatim>\<open>(APT\d{4})\<close>\<close>
  "appointment_id_at is_decimal s =
     (if prefix (text_of ''APT'') s \<and> length (take 4 (drop 3 s)) = 4
         \<and> list_all is_decimal (take 4 (drop 3 s))
      then Some (take 7 s) else None)"

definition apt_id_match ::
  "(code_points \<Rightarrow> code_points) \<Rightarrow> (nat \<Rightarrow> bool) \<Rightarrow> code_points \<Rightarrow> code_points option"
where
  "apt_id_match str_upper is_decimal message =
     re_search (appointment_id_at is_decimal) (str_upper message)"

text \<open>The builtins on ASCII code points, and the extraction on an ASCII message.\<close>

definition ascii_upper :: "code_points \<Rightarrow> code_points" where
  "ascii_upper s = map (\<lambda>n. if 97 \<le> n \<and> n \<le> 122 then n - 32 else n) s"

definition ascii_decimal :: "nat \<Rightarrow> bool" where
  "ascii_decimal n = (48 \<le> n \<and> n \<le> 57)"

definition extract_appointment_id :: "string \<Rightarrow> string option" where
  "extract_appointment_id message =
     map_option (map char_of) (apt_id_match ascii_upper ascii_decimal (text_of message))"

section \<open>Shared data models\<close>

datatype AppointmentStatus = SCHEDULED | CONFIRMED | CANCELLED | COMPLETED

text \<open>
  The fee is a Python float that the program only stores and prints; it is a rational
  here, and its printed form is a parameter of the reply texts.
\<close>

record Doctor =
  doc_id :: string
  name :: string
  specialty :: string
  available_slots :: "string list"
  consultation_fee :: rat

record Appointment =
  apt_id :: string
  doctor_id :: string
  doctor_name :: string
  patient_name :: string
  patient_phone :: "string option"
  appointment_time :: string
  apt_specialty :: string
  status :: AppointmentStatus
  apt_consultation_fee :: rat
  apt_notes :: "string option"

record GlobalDataStore =
  doctors :: "Doctor list"
  appointments :: "Appointment list"
  appointment_counter :: int

definition data_store :: GlobalDataStore where
  "data_store =
     \<lparr>doctors =
        [\<lparr>doc_id = ''dr001'', name = ''Dr. Sarah Johnson'', specialty = ''Cardiology'',
          available_slots = [''2025-05-29 09:00'', ''2025-05-29 14:00'', ''2025-05-30 10:00''],
          consultation_fee = 150\<rparr>,
         \<lparr>doc_id = ''dr002'', name = ''Dr. Michael Chen'', specialty = ''Dermatology'',
          available_slots = [''2025-05-29 11:00'', ''2025-05-29 15:30'', ''2025-05-30 09:30''],
          consultation_fee = 120\<rparr>,
         \<lparr>doc_id = ''dr003'', name = ''Dr. Emily Rodriguez'', specialty = ''Pediatrics'',
          available_slots = [''2025-05-29 13:00'', ''2025-05-30 11:00'', ''2025-05-30 16:00''],
          consultation_fee = 100\<rparr>,
         \<lparr>doc_id = ''dr004'', name = ''Dr. James Wilson'', specialty = ''Orthopedics'',
          available_slots = [''2025-05-29 10:00'', ''2025-05-30 14:00'', ''2025-05-31 09:00''],
          consultation_fee = 180\<rparr>],
      appointments = [],
      appointment_counter = 1\<rparr>"

text \<open>
  What a tool returns: one constructor for each \<^verbatim>\<open>return\<close> of the tools, carrying the
  values the text interpolates. \<open>render\<close> below writes the text out. No path of the
  tools raises (every \<^verbatim>\<open>remove\<close> follows a membership test, every index a non-empty
  test), so the \<^verbatim>\<open>except\<close> branches have no constructor.
\<close>

datatype response =
    NoDoctorsFound "string option"
  | AvailableDoctors "string option" "Doctor list"
  | AvailableSlots Doctor
  | NoAvailableSlots string
  | DoctorNotFound string
  | SlotReserved string string string rat
  | SlotNotAvailable
  | NoDoctorsAvailable "string option"
  | AppointmentBooked Appointment
  | NoMatchingAppointments
  | NoAppointmentsScheduled
  | NoAppointmentsFound "string option"
  | ScheduledAppointments "Appointment list"
  | AlreadyCancelled string
  | CancelledSuccessfully string
  | AppointmentNotFound string

section \<open>Doctor directory tools\<close>

definition matches_specialty :: "string \<Rightarrow> Doctor \<Rightarrow> bool" where
  \<comment> \<open>\<^verbatim>\<open>specialty.lower() in d.specialty.lower()\<close>\<close>
  "matches_specialty sp d = contains (lower sp) (lower (specialty d))"

definition candidate :: "string option \<Rightarrow> Doctor \<Rightarrow> bool" where
  \<comment> \<open>a doctor of the list after \<^verbatim>\<open>if specialty: doctors = [d for d in doctors if ...]\<close>\<close>
  "candidate sp_opt d = (case sp_opt of None \<Rightarrow> True | Some sp \<Rightarrow> sp = [] \<or> matches_specialty sp d)"

definition list_doctors :: "GlobalDataStore \<Rightarrow> string option \<Rightarrow> response" where
  "list_doctors s sp_opt =
     (let filtered_doctors = filter (candidate sp_opt) (doctors s)
      in if filtered_doctors = [] then NoDoctorsFound sp_opt
         else AvailableDoctors sp_opt filtered_doctors)"

fun get_doctor_slots_loop :: "Doctor list \<Rightarrow> string \<Rightarrow> response" where
  "get_doctor_slots_loop [] did = DoctorNotFound did"
| "get_doctor_slots_loop (d # ds) did =
     (if doc_id d = did
      then (if available_slots d \<noteq> [] then AvailableSlots d else NoAvailableSlots (name d))
      else get_doctor_slots_loop ds did)"

definition get_doctor_slots :: "GlobalDataStore \<Rightarrow> string \<Rightarrow> response" where
  "get_doctor_slots s did = get_doctor_slots_loop (doctors s) did"

text \<open>
  The tools mutate the doctor and appointment objects of the store in place. The loops
  below walk the store's list and return it with the one object they changed replaced
  at its position.
\<close>

fun reserve_slot_loop :: "Doctor list \<Rightarrow> string \<Rightarrow> string \<Rightarrow> response \<times> Doctor list" where
  "reserve_slot_loop [] did slot = (SlotNotAvailable, [])"
| "reserve_slot_loop (d # ds) did slot =
     (if doc_id d = did \<and> slot \<in> set (available_slots d)
      then (SlotReserved (name d) (specialty d) slot (consultation_fee d),
            d\<lparr>available_slots := remove1 slot (available_slots d)\<rparr> # ds)
      else (case reserve_slot_loop ds did slot of (r, ds') \<Rightarrow> (r, d # ds')))"

definition reserve_slot :: "GlobalDataStore \<Rightarrow> string \<Rightarrow> string \<Rightarrow> response \<times> GlobalDataStore" where
  "reserve_slot s did slot =
     (case reserve_slot_loop (doctors s) did slot of (r, ds') \<Rightarrow> (r, s\<lparr>doctors := ds'\<rparr>))"

section \<open>Booking tools\<close>

definition booking_time_patterns :: "(string \<times> string list) list" where
  "booking_time_patterns =
     [(''morning'', [''09:00'', ''10:00'', ''11:00'']),
      (''afternoon'', [''14:00'', ''15:00'', ''16:00'']),
      (''evening'', [''17:00'', ''18:00''])]"

definition preferred_slot :: "string option \<Rightarrow> string list \<Rightarrow> string option" where
  \<comment> \<open>\<^verbatim>\<open>selected_slot\<close> after the \<^verbatim>\<open>if preferred_time:\<close> block\<close>
  "preferred_slot preferred_time slots =
     (case preferred_time of
        None \<Rightarrow> None
      | Some pt \<Rightarrow>
          if pt = [] then None
          else (case map_of booking_time_patterns pt of
                  Some hours \<Rightarrow> find (\<lambda>slot. list_ex (\<lambda>time. contains time slot) hours) slots
                | None \<Rightarrow> find (\<lambda>slot. contains pt slot) slots))"

definition select_slot :: "string option \<Rightarrow> string list \<Rightarrow> string option" where
  \<comment> \<open>\<^verbatim>\<open>selected_slot\<close> at \<^verbatim>\<open>if selected_slot:\<close>; \<open>None\<close> when it is false there\<close>
  "select_slot preferred_time slots =
     (let selected_slot = preferred_slot preferred_time slots;
          selected_slot = (if \<not> truthy selected_slot
                           then (case slots of [] \<Rightarrow> selected_slot | first # _ \<Rightarrow> Some first)
                           else selected_slot)
      in if truthy selected_slot then selected_slot else None)"

fun digits_nat :: "nat \<Rightarrow> string" where
  "digits_nat n =
     (if n < 10 then [char_of (48 + n)]
      else digits_nat (n div 10) @ [char_of (48 + n mod 10)])"

declare digits_nat.simps [simp del]

definition zero_pad :: "nat \<Rightarrow> string \<Rightarrow> string" where
  "zero_pad width s = replicate (width - length s) (CHR ''0'') @ s"

definition format_04d :: "int \<Rightarrow> string" where
  \<comment> \<open>the format \<^verbatim>\<open>:04d\<close>: at least four characters, the sign among them\<close>
  "format_04d n =
     (if n < 0 then ''-'' @ zero_pad 3 (digits_nat (nat (- n)))
      else zero_pad 4 (digits_nat (nat n)))"

definition appointment_id :: "int \<Rightarrow> string" where
  "appointment_id n = ''APT'' @ format_04d n"

text \<open>
  The loop over the filtered doctors: \<open>keep\<close> is the filter, so the walk over the whole
  store skips the doctors the filtered list leaves out. The result is the doctor as she
  was found, the slot, and the store's doctors after the slot is removed.
\<close>

fun book_loop ::
  "(Doctor \<Rightarrow> bool) \<Rightarrow> string option \<Rightarrow> Doctor list \<Rightarrow> (Doctor \<times> string \<times> Doctor list) option"
where
  "book_loop keep preferred_time [] = None"
| "book_loop keep preferred_time (d # ds) =
     (case (if keep d \<and> available_slots d \<noteq> []
            then select_slot preferred_time (available_slots d) else None) of
        Some selected_slot \<Rightarrow>
          Some (d, selected_slot,
                d\<lparr>available_slots := remove1 selected_slot (available_slots d)\<rparr> # ds)
      | None \<Rightarrow>
          (case book_loop keep preferred_time ds of
             None \<Rightarrow> None
           | Some (doctor, selected_slot, ds') \<Rightarrow> Some (doctor, selected_slot, d # ds')))"

definition new_appointment ::
  "int \<Rightarrow> Doctor \<Rightarrow> string \<Rightarrow> string option \<Rightarrow> string \<Rightarrow> Appointment"
where
  "new_appointment counter doctor pname phone selected_slot =
     \<lparr>apt_id = appointment_id counter, doctor_id = doc_id doctor, doctor_name = name doctor,
      patient_name = pname, patient_phone = phone, appointment_time = selected_slot,
      apt_specialty = specialty doctor, status = SCHEDULED,
      apt_consultation_fee = consultation_fee doctor, apt_notes = None\<rparr>"

definition book_appointment ::
  "GlobalDataStore \<Rightarrow> string \<Rightarrow> string option \<Rightarrow> string option \<Rightarrow> string option
     \<Rightarrow> response \<times> GlobalDataStore"
where
  "book_appointment s pname sp_opt preferred_time phone =
     (if filter (candidate sp_opt) (doctors s) = [] then (NoDoctorsAvailable sp_opt, s)
      else (case book_loop (candidate sp_opt) preferred_time (doctors s) of
              None \<Rightarrow> (NoMatchingAppointments, s)
            | Some (doctor, selected_slot, ds') \<Rightarrow>
                (let appointment =
                       new_appointment (appointment_counter s) doctor pname phone selected_slot
                 in (AppointmentBooked appointment,
                     s\<lparr>doctors := ds',
                       appointments := appointments s @ [appointment],
                       appointment_counter := appointment_counter s + 1\<rparr>))))"

text \<open>
  Patient names come from the caller and can be any text, so \<^verbatim>\<open>str.lower\<close> is the
  parameter \<open>str_lower\<close> here.
\<close>

definition name_matches :: "(string \<Rightarrow> string) \<Rightarrow> string \<Rightarrow> Appointment \<Rightarrow> bool" where
  \<comment> \<open>\<^verbatim>\<open>patient_name.lower() in apt.patient_name.lower()\<close>\<close>
  "name_matches str_lower pn apt = contains (str_lower pn) (str_lower (patient_name apt))"

definition list_appointments ::
  "(string \<Rightarrow> string) \<Rightarrow> GlobalDataStore \<Rightarrow> string option \<Rightarrow> response"
where
  "list_appointments str_lower s pn_opt =
     (if appointments s = [] then NoAppointmentsScheduled
      else (let filtered_appointments =
                  (case pn_opt of
                     None \<Rightarrow> appointments s
                   | Some pn \<Rightarrow> if pn = [] then appointments s
                               else filter (name_matches str_lower pn) (appointments s))
            in if filtered_appointments = [] then NoAppointmentsFound pn_opt
               else ScheduledAppointments filtered_appointments))"

fun release_slot :: "Doctor list \<Rightarrow> string \<Rightarrow> string \<Rightarrow> Doctor list" where
  "release_slot [] did slot = []"
| "release_slot (d # ds) did slot =
     (if doc_id d = did
      then d\<lparr>available_slots := sort (available_slots d @ [slot])\<rparr> # ds
      else d # release_slot ds did slot)"

fun cancel_loop ::
  "Appointment list \<Rightarrow> Doctor list \<Rightarrow> string \<Rightarrow> response \<times> Appointment list \<times> Doctor list"
where
  "cancel_loop [] ds aid = (AppointmentNotFound aid, [], ds)"
| "cancel_loop (a # as) ds aid =
     (if apt_id a = aid
      then (if status a = CANCELLED then (AlreadyCancelled aid, a # as, ds)
            else (CancelledSuccessfully aid, a\<lparr>status := CANCELLED\<rparr> # as,
                  release_slot ds (doctor_id a) (appointment_time a)))
      else (case cancel_loop as ds aid of (r, as', ds') \<Rightarrow> (r, a # as', ds')))"

definition cancel_appointment :: "GlobalDataStore \<Rightarrow> string \<Rightarrow> response \<times> GlobalDataStore" where
  "cancel_appointment s aid =
     (case cancel_loop (appointments s) (doctors s) aid of
        (r, as', ds') \<Rightarrow> (r, s\<lparr>doctors := ds', appointments := as'\<rparr>))"

section \<open>Sequences of tool calls\<close>

text \<open>
  The agent decides which tool to call with which arguments; any sequence can occur.
  Listing appointments leaves the store as it is; in a run its reply is taken with the
  ASCII \<open>lower\<close>.
\<close>

datatype tool_call =
    ListDoctors "string option"
  | GetDoctorSlots string
  | ReserveSlot string string
  | BookAppointment string "string option" "string option" "string option"
  | ListAppointments "string option"
  | CancelAppointment string

fun call_tool :: "GlobalDataStore \<Rightarrow> tool_call \<Rightarrow> response \<times> GlobalDataStore" where
  "call_tool s (ListDoctors sp_opt) = (list_doctors s sp_opt, s)"
| "call_tool s (GetDoctorSlots did) = (get_doctor_slots s did, s)"
| "call_tool s (ReserveSlot did slot) = reserve_slot s did slot"
| "call_tool s (BookAppointment pname sp_opt preferred_time phone) =
     book_appointment s pname sp_opt preferred_time phone"
| "call_tool s (ListAppointments pn_opt) = (list_appointments lower s pn_opt, s)"
| "call_tool s (CancelAppointment aid) = cancel_appointment s aid"

fun call_tools :: "GlobalDataStore \<Rightarrow> tool_call list \<Rightarrow> response list \<times> GlobalDataStore" where
  "call_tools s [] = ([], s)"
| "call_tools s (c # cs) =
     (case call_tool s c of (r, s') \<Rightarrow>
        (case call_tools s' cs of (rs, s'') \<Rightarrow> (r # rs, s'')))"

section \<open>Reply texts\<close>

definition nl :: string where "nl = [CHR 0x0A]"
definition check_mark :: string where "check_mark = [CHR 0xE2, CHR 0x9C, CHR 0x85]"
definition cross_mark :: string where "cross_mark = [CHR 0xE2, CHR 0x9D, CHR 0x8C]"
definition bullet :: string where "bullet = [CHR 0xE2, CHR 0x80, CHR 0xA2]"
definition calendar :: string where "calendar = [CHR 0xF0, CHR 0x9F, CHR 0x93, CHR 0x85]"
definition clipboard :: string where "clipboard = [CHR 0xF0, CHR 0x9F, CHR 0x93, CHR 0x8B]"
definition bust :: string where "bust = [CHR 0xF0, CHR 0x9F, CHR 0x91, CHR 0xA4]"
definition clock :: string where "clock = [CHR 0xF0, CHR 0x9F, CHR 0x95, CHR 0x90]"
definition money_bag :: string where "money_bag = [CHR 0xF0, CHR 0x9F, CHR 0x92, CHR 0xB0]"
definition receiver :: string where "receiver = [CHR 0xF0, CHR 0x9F, CHR 0x93, CHR 0x9E]"
definition bar_chart :: string where "bar_chart = [CHR 0xF0, CHR 0x9F, CHR 0x93, CHR 0x8A]"

definition health_worker :: string where
  "health_worker =
     [CHR 0xF0, CHR 0x9F, CHR 0x91, CHR 0xA8, CHR 0xE2, CHR 0x80, CHR 0x8D,
      CHR 0xE2, CHR 0x9A, CHR 0x95, CHR 0xEF, CHR 0xB8, CHR 0x8F]"

definition rule_line :: string where
  "rule_line = concat (replicate 32 [CHR 0xE2, CHR 0x94, CHR 0x81])"

fun status_emoji :: "AppointmentStatus \<Rightarrow> string" where
  "status_emoji SCHEDULED = [CHR 0xF0, CHR 0x9F, CHR 0x97, CHR 0x93, CHR 0xEF, CHR 0xB8, CHR 0x8F]"
| "status_emoji CONFIRMED = check_mark"
| "status_emoji CANCELLED = cross_mark"
| "status_emoji COMPLETED = [CHR 0xE2, CHR 0x9C, CHR 0x94, CHR 0xEF, CHR 0xB8, CHR 0x8F]"

fun status_value :: "AppointmentStatus \<Rightarrow> string" where
  "status_value SCHEDULED = ''scheduled''"
| "status_value CONFIRMED = ''confirmed''"
| "status_value CANCELLED = ''cancelled''"
| "status_value COMPLETED = ''completed''"

fun join :: "string \<Rightarrow> string list \<Rightarrow> string" where
  "join sep [] = []"
| "join sep [x] = x"
| "join sep (x # y # ys) = x @ sep @ join sep (y # ys)"

definition or_else :: "string option \<Rightarrow> string \<Rightarrow> string" where
  \<comment> \<open>\<^verbatim>\<open>value or default\<close>\<close>
  "or_else v alt = (case v of None \<Rightarrow> alt | Some s \<Rightarrow> if s = [] then alt else s)"

definition render_doctor :: "(rat \<Rightarrow> string) \<Rightarrow> Doctor \<Rightarrow> string" where
  "render_doctor str_fee doc =
     (let slots_text = (if available_slots doc \<noteq> [] then join '', '' (available_slots doc)
                        else ''No slots available'')
      in bullet @ '' '' @ name doc @ '' (ID: '' @ doc_id doc @ '', '' @ specialty doc
         @ '') - Fee: $'' @ str_fee (consultation_fee doc) @ nl
         @ ''  Available: '' @ slots_text @ nl)"

definition render_appointment :: "(rat \<Rightarrow> string) \<Rightarrow> Appointment \<Rightarrow> string" where
  "render_appointment str_fee apt =
     status_emoji (status apt) @ '' '' @ apt_id apt @ '' | '' @ patient_name apt @ nl
     @ ''   '' @ health_worker @ '' '' @ doctor_name apt @ '' ('' @ apt_specialty apt @ '')'' @ nl
     @ ''   '' @ clock @ '' '' @ appointment_time apt @ '' | '' @ money_bag @ '' $''
       @ str_fee (apt_consultation_fee apt) @ nl
     @ ''   '' @ bar_chart @ '' Status: '' @ title (status_value (status apt)) @ nl
     @ (if truthy (patient_phone apt)
        then ''   '' @ receiver @ '' '' @ or_else (patient_phone apt) [] @ nl else [])
     @ rule_line @ nl"

fun render :: "(rat \<Rightarrow> string) \<Rightarrow> response \<Rightarrow> string" where
  "render str_fee (NoDoctorsFound sp) = ''No doctors found for '' @ or_else sp ''any specialty''"
| "render str_fee (AvailableDoctors sp docs) =
     ''Available doctors'' @ (if truthy sp then '' for '' @ or_else sp [] else []) @ '':'' @ nl
     @ concat (map (render_doctor str_fee) docs)"
| "render str_fee (AvailableSlots doc) =
     ''Available slots for '' @ name doc @ '':'' @ nl
     @ ''Specialty: '' @ specialty doc @ nl
     @ ''Consultation Fee: $'' @ str_fee (consultation_fee doc) @ nl
     @ ''Slots: '' @ join '', '' (available_slots doc)"
| "render str_fee (NoAvailableSlots doc_name) = ''No available slots for '' @ doc_name"
| "render str_fee (DoctorNotFound did) = ''Doctor '' @ did @ '' not found''"
| "render str_fee (SlotReserved doc_name doc_specialty slot fee) =
     check_mark @ '' Slot reserved successfully!'' @ nl
     @ ''Doctor: '' @ doc_name @ '' ('' @ doc_specialty @ '')'' @ nl
     @ ''Time: '' @ slot @ nl
     @ ''Fee: $'' @ str_fee fee"
| "render str_fee SlotNotAvailable = cross_mark @ '' Slot not available or doctor not found''"
| "render str_fee (NoDoctorsAvailable sp) =
     cross_mark @ '' No doctors available for '' @ or_else sp ''any specialty''"
| "render str_fee (AppointmentBooked apt) =
     check_mark @ '' Appointment booked successfully!'' @ nl
     @ rule_line @ nl
     @ clipboard @ '' Appointment ID: '' @ apt_id apt @ nl
     @ bust @ '' Patient: '' @ patient_name apt @ nl
     @ health_worker @ '' Doctor: '' @ doctor_name apt @ '' ('' @ apt_specialty apt @ '')'' @ nl
     @ clock @ '' Time: '' @ appointment_time apt @ nl
     @ money_bag @ '' Consultation Fee: $'' @ str_fee (apt_consultation_fee apt) @ nl
     @ receiver @ '' Contact: '' @ or_else (patient_phone apt) ''Not provided'' @ nl
     @ rule_line @ nl
     @ ''Please arrive 15 minutes early.''"
| "render str_fee NoMatchingAppointments =
     cross_mark @ '' No available appointments found matching your criteria''"
| "render str_fee NoAppointmentsScheduled = calendar @ '' No appointments scheduled''"
| "render str_fee (NoAppointmentsFound pn) =
     calendar @ '' No appointments found'' @ (if truthy pn then '' for '' @ or_else pn [] else [])"
| "render str_fee (ScheduledAppointments apts) =
     calendar @ '' Scheduled Appointments:'' @ nl @ rule_line @ nl
     @ concat (map (render_appointment str_fee) apts)"
| "render str_fee (AlreadyCancelled aid) =
     cross_mark @ '' Appointment '' @ aid @ '' is already cancelled''"
| "render str_fee (CancelledSuccessfully aid) =
     check_mark @ '' Appointment '' @ aid @ '' has been cancelled successfully''"
| "render str_fee (AppointmentNotFound aid) =
     cross_mark @ '' Appointment '' @ aid @ '' not found''"

section \<open>Example runs\<close>

text \<open>The seeded store after one booking, and after that booking is cancelled.\<close>

definition booked_once :: GlobalDataStore where
  "booked_once =
     snd (book_appointment data_store ''John Smith'' (Some ''Cardiology'') None None)"

definition cancelled_once :: GlobalDataStore where
  "cancelled_once = snd (cancel_appointment booked_once ''APT0001'')"

definition cardiology_reserved :: GlobalDataStore where
  \<comment> \<open>the seeded store after every slot of the cardiologist is reserved\<close>
  "cardiology_reserved =
     snd (call_tools data_store
       [ReserveSlot ''dr001'' ''2025-05-29 09:00'', ReserveSlot ''dr001'' ''2025-05-29 14:00'',
        ReserveSlot ''dr001'' ''2025-05-30 10:00''])"

definition mornings_reserved :: GlobalDataStore where
  \<comment> \<open>the seeded store after the two morning slots of the first doctor are reserved\<close>
  "mornings_reserved =
     snd (call_tools data_store
       [ReserveSlot ''dr001'' ''2025-05-29 09:00'', ReserveSlot ''dr001'' ''2025-05-30 10:00''])"

definition book_cancel_book :: "tool_call list" where
  \<comment> \<open>a booking, its cancellation, and a second booking that gets the released slot\<close>
  "book_cancel_book =
     [BookAppointment ''John Smith'' (Some ''Cardiology'') None None,
      CancelAppointment ''APT0001'',
      BookAppointment ''Ann Lee'' (Some ''cardio'') (Some ''morning'') (Some ''555-0100'')]"

text \<open>
  Bookings that are cancelled at once: each round books the first slot of the first doctor
  and cancels the appointment by its identifier, which puts the slot back.
\<close>

fun book_cancel_cycles :: "nat \<Rightarrow> int \<Rightarrow> tool_call list" where
  "book_cancel_cycles 0 counter = []"
| "book_cancel_cycles (Suc n) counter =
     BookAppointment ''Ann Lee'' None None None
     # CancelAppointment (appointment_id counter)
     # book_cancel_cycles n (counter + 1)"

section \<open>Properties of the store\<close>

text \<open>The identifiers of the appointments that a run of tool calls has booked, in order.\<close>

fun booked_ids :: "response list \<Rightarrow> string list" where
  "booked_ids [] = []"
| "booked_ids (AppointmentBooked apt # rs) = apt_id apt # booked_ids rs"
| "booked_ids (r # rs) = booked_ids rs"

text \<open>The number that a string of decimal digits writes.\<close>

definition decimal_value :: "string \<Rightarrow> nat" where
  "decimal_value s = foldl (\<lambda>acc c. 10 * acc + ((of_char c :: nat) - 48)) 0 s"

text \<open>
  An appointment that is not cancelled holds its slot: the slot is in the available list
  of no doctor with the appointment's doctor id.
\<close>

definition active :: "Appointment \<Rightarrow> bool" where
  "active apt = (status apt \<noteq> CANCELLED)"

definition booked_slots_unavailable :: "GlobalDataStore \<Rightarrow> bool" where
  "booked_slots_unavailable s =
     (\<forall>apt\<in>set (appointments s). active apt \<longrightarrow>
        (\<forall>d\<in>set (doctors s). doc_id d = doctor_id apt \<longrightarrow>
           appointment_time apt \<notin> set (available_slots d)))"

text \<open>
  What the tools keep true of the store besides: the doctor ids are distinct, no doctor
  lists a slot twice, no two appointments that are not cancelled hold the same slot of
  the same doctor, and no slot is the empty string.
\<close>

definition store_invariant :: "GlobalDataStore \<Rightarrow> bool" where
  "store_invariant s =
     (distinct (map doc_id (doctors s))
      \<and> (\<forall>d\<in>set (doctors s). distinct (available_slots d) \<and> [] \<notin> set (available_slots d))
      \<and> (\<forall>apt\<in>set (appointments s). appointment_time apt \<noteq> [])
      \<and> booked_slots_unavailable s
      \<and> distinct (map (\<lambda>apt. (doctor_id apt, appointment_time apt))
                     (filter active (appointments s))))"

section \<open>The slot rule of the specification\<close>

text \<open>
  The rule in the specification's words, to compare \<open>select_slot\<close> with: a slot matches
  a named bucket when it contains one of the bucket's hour markers, and any other
  preference when it contains the preference literally; the first matching slot in list
  order is taken, and the first available slot when none matches or no preference is
  given.
\<close>

definition spec_time_match :: "string option \<Rightarrow> string \<Rightarrow> bool" where
  "spec_time_match preferred_time slot =
     (if preferred_time = Some ''morning''
      then sublist ''09:00'' slot \<or> sublist ''10:00'' slot \<or> sublist ''11:00'' slot
      else if preferred_time = Some ''afternoon''
      then sublist ''14:00'' slot \<or> sublist ''15:00'' slot \<or> sublist ''16:00'' slot
      else if preferred_time = Some ''evening''
      then sublist ''17:00'' slot \<or> sublist ''18:00'' slot
      else (case preferred_time of None \<Rightarrow> False | Some p \<Rightarrow> p \<noteq> [] \<and> sublist p slot))"

definition spec_slot_choice :: "string option \<Rightarrow> string list \<Rightarrow> string option" where
  "spec_slot_choice preferred_time slots =
     (case find (spec_time_match preferred_time) slots of
        Some slot \<Rightarrow> Some slot
      | None \<Rightarrow> (case slots of [] \<Rightarrow> None | first # _ \<Rightarrow> Some first))"

section \<open>The extractors on the documented messages\<close>

text \<open>
  C8. On the documented messages the extractors return the documented values:
  the specialty of \<open>find cardiologists\<close> is \<open>cardiology\<close>; the doctor id of
  \<open>slots for dr001\<close> is \<open>dr001\<close>; the appointment id of \<open>cancel appointment APT0001\<close>
  is \<open>APT0001\<close>; and \<open>book appointment for John Smith with cardiologist in the morning\<close>
  gives the patient name \<open>John Smith\<close>, the specialty \<open>cardiology\<close> and the time
  preference \<open>morning\<close>.
\<close>

theorem extraction_scenarios:
  "extract_specialty ''find cardiologists'' = Some ''cardiology''
   \<and> extract_doctor_id ''slots for dr001'' = Some ''dr001''
   \<and> extract_appointment_id ''cancel appointment APT0001'' = Some ''APT0001''
   \<and> extract_patient_name ''book appointment for John Smith with cardiologist in the morning''
       = Some ''John Smith''
   \<and> extract_specialty ''book appointment for John Smith with cardiologist in the morning''
       = Some ''cardiology''
   \<and> extract_time_preference ''book appointment for John Smith with cardiologist in the morning''
       = Some ''morning''"
  by code_simp

text \<open>
  C10. A message that names no patient still yields a name: the third pattern takes the
  one or two words after \<open>book\<close>, so \<open>book appointment with cardiologist\<close> gives the
  patient name \<open>Appointment With\<close>.
\<close>

theorem spurious_patient_name:
  "extract_patient_name ''book appointment with cardiologist'' = Some ''Appointment With''"
  by code_simp

section \<open>Facts about text and lists\<close>

lemma remove1_first_occurrence:
  "x \<in> set xs \<Longrightarrow> \<exists>before after. xs = before @ x # after \<and> x \<notin> set before \<and> remove1 x xs = before @ after"
proof -
  assume "x \<in> set xs"
  then obtain before after where "xs = before @ x # after" "x \<notin> set before"
    by (auto dest: split_list_first)
  then show ?thesis by (auto simp: remove1_append)
qed

lemma reserve_slot_loop_none:
  "\<forall>d\<in>set ds. \<not> (doc_id d = did \<and> slot \<in> set (available_slots d))
   \<Longrightarrow> reserve_slot_loop ds did slot = (SlotNotAvailable, ds)"
  by (induction ds) auto

lemma reserve_slot_loop_first:
  "\<forall>e\<in>set pre. \<not> (doc_id e = did \<and> slot \<in> set (available_slots e))
   \<Longrightarrow> doc_id d = did \<Longrightarrow> slot \<in> set (available_slots d)
   \<Longrightarrow> reserve_slot_loop (pre @ d # post) did slot =
         (SlotReserved (name d) (specialty d) slot (consultation_fee d),
          pre @ d\<lparr>available_slots := remove1 slot (available_slots d)\<rparr> # post)"
  by (induction pre) auto


lemma contains_sublist: "contains needle hay = sublist needle hay"
  by (induction hay) (auto simp: sublist_Cons_right)

lemma contains_middle: "contains x (a @ x @ b)"
  by (simp add: contains_sublist)

lemma contains_last: "contains x (a @ x)"
  using contains_middle[of x a "[]"] by simp

lemma render_SlotReserved_fee:
  "contains (str_fee fee) (render str_fee (SlotReserved n sp slot fee))"
proof -
  have "render str_fee (SlotReserved n sp slot fee) =
      (check_mark @ '' Slot reserved successfully!'' @ nl
       @ ''Doctor: '' @ n @ '' ('' @ sp @ '')'' @ nl
       @ ''Time: '' @ slot @ nl @ ''Fee: $'') @ str_fee fee"
    by simp
  then show ?thesis by (simp only: contains_last)
qed

section \<open>Reserving a slot\<close>

text \<open>
  C3. \<open>reserve_slot\<close> returns the failure reply, and leaves the whole store as it was,
  when no doctor has the given id with the exact slot string in the available list.
  Otherwise it takes the first such doctor, removes the first occurrence of the slot from
  that doctor's list (the slots before and after it stay in their order, every other
  doctor stays as is) and returns the confirmation, whose text includes the
  consultation fee.
\<close>

theorem reserve_slot_spec:
  "((\<forall>d\<in>set (doctors s). \<not> (doc_id d = did \<and> slot \<in> set (available_slots d)))
      \<longrightarrow> reserve_slot s did slot = (SlotNotAvailable, s))
   \<and> ((\<exists>d\<in>set (doctors s). doc_id d = did \<and> slot \<in> set (available_slots d))
      \<longrightarrow> (\<exists>pre d post before after.
             doctors s = pre @ d # post
             \<and> (\<forall>e\<in>set pre. \<not> (doc_id e = did \<and> slot \<in> set (available_slots e)))
             \<and> doc_id d = did
             \<and> available_slots d = before @ slot # after \<and> slot \<notin> set before
             \<and> reserve_slot s did slot =
                 (SlotReserved (name d) (specialty d) slot (consultation_fee d),
                  s\<lparr>doctors := pre @ d\<lparr>available_slots := before @ after\<rparr> # post\<rparr>)
             \<and> contains (str_fee (consultation_fee d))
                  (render str_fee (fst (reserve_slot s did slot)))))"
proof (intro conjI impI)
  assume "\<forall>d\<in>set (doctors s). \<not> (doc_id d = did \<and> slot \<in> set (available_slots d))"
  then show "reserve_slot s did slot = (SlotNotAvailable, s)"
    by (simp add: reserve_slot_def reserve_slot_loop_none)
next
  let ?P = "\<lambda>d. doc_id d = did \<and> slot \<in> set (available_slots d)"
  assume "\<exists>d\<in>set (doctors s). doc_id d = did \<and> slot \<in> set (available_slots d)"
  then have "\<exists>pre d post. doctors s = pre @ d # post \<and> ?P d \<and> (\<forall>e\<in>set pre. \<not> ?P e)"
    by (rule split_list_first_prop)
  then obtain pre d post where split: "doctors s = pre @ d # post"
      and d: "doc_id d = did" "slot \<in> set (available_slots d)"
      and pre: "\<forall>e\<in>set pre. \<not> (doc_id e = did \<and> slot \<in> set (available_slots e))"
    by blast
  from d(2) obtain before after where slots: "available_slots d = before @ slot # after"
      "slot \<notin> set before" "remove1 slot (available_slots d) = before @ after"
    using remove1_first_occurrence[of slot "available_slots d"] by blast
  have res: "reserve_slot s did slot =
      (SlotReserved (name d) (specialty d) slot (consultation_fee d),
       s\<lparr>doctors := pre @ d\<lparr>available_slots := before @ after\<rparr> # post\<rparr>)"
    using reserve_slot_loop_first[OF pre d, of post] split slots(3)
    by (simp add: reserve_slot_def)
  have msg: "contains (str_fee (consultation_fee d)) (render str_fee (fst (reserve_slot s did slot)))"
    unfolding res fst_conv by (rule render_SlotReserved_fee)
  show "\<exists>pre d post before after.
             doctors s = pre @ d # post
             \<and> (\<forall>e\<in>set pre. \<not> (doc_id e = did \<and> slot \<in> set (available_slots e)))
             \<and> doc_id d = did
             \<and> available_slots d = before @ slot # after \<and> slot \<notin> set before
             \<and> reserve_slot s did slot =
                 (SlotReserved (name d) (specialty d) slot (consultation_fee d),
                  s\<lparr>doctors := pre @ d\<lparr>available_slots := before @ after\<rparr> # post\<rparr>)
             \<and> contains (str_fee (consultation_fee d))
                  (render str_fee (fst (reserve_slot s did slot)))"
    apply (rule exI[of _ pre], rule exI[of _ d], rule exI[of _ post])
    apply (rule exI[of _ before], rule exI[of _ after])
    apply (intro conjI)
    apply (rule split, rule pre, rule d(1), rule slots(1), rule slots(2), rule res, rule msg)
    done
qed

theorem reserve_slot_spec_witness:
  "(\<exists>d\<in>set (doctors data_store). doc_id d = ''dr001'' \<and> ''2025-05-29 14:00'' \<in> set (available_slots d))
   \<and> fst (reserve_slot data_store ''dr001'' ''2025-05-29 14:00'')
       = SlotReserved ''Dr. Sarah Johnson'' ''Cardiology'' ''2025-05-29 14:00'' 150
   \<and> map available_slots (doctors (snd (reserve_slot data_store ''dr001'' ''2025-05-29 14:00'')))
       = [[''2025-05-29 09:00'', ''2025-05-30 10:00''],
          [''2025-05-29 11:00'', ''2025-05-29 15:30'', ''2025-05-30 09:30''],
          [''2025-05-29 13:00'', ''2025-05-30 11:00'', ''2025-05-30 16:00''],
          [''2025-05-29 10:00'', ''2025-05-30 14:00'', ''2025-05-31 09:00'']]
   \<and> contains ''150.0''
        (render (\<lambda>fee. ''150.0'') (fst (reserve_slot data_store ''dr001'' ''2025-05-29 14:00'')))
   \<and> reserve_slot data_store ''dr001'' ''2025-05-29 12:00'' = (SlotNotAvailable, data_store)"
proof -
  have ok: "\<exists>d\<in>set (doctors data_store). doc_id d = ''dr001'' \<and> ''2025-05-29 14:00'' \<in> set (available_slots d)"
    by (simp add: data_store_def)
  have no: "\<forall>d\<in>set (doctors data_store). \<not> (doc_id d = ''dr001'' \<and> ''2025-05-29 12:00'' \<in> set (available_slots d))"
    by (simp add: data_store_def)
  have fail: "reserve_slot data_store ''dr001'' ''2025-05-29 12:00'' = (SlotNotAvailable, data_store)"
    using reserve_slot_spec[of data_store "''dr001''" "''2025-05-29 12:00''"] no by blast
  have r1: "fst (reserve_slot data_store ''dr001'' ''2025-05-29 14:00'')
       = SlotReserved ''Dr. Sarah Johnson'' ''Cardiology'' ''2025-05-29 14:00'' 150"
    by (simp add: reserve_slot_def data_store_def)
  have r2: "map available_slots (doctors (snd (reserve_slot data_store ''dr001'' ''2025-05-29 14:00'')))
       = [[''2025-05-29 09:00'', ''2025-05-30 10:00''],
          [''2025-05-29 11:00'', ''2025-05-29 15:30'', ''2025-05-30 09:30''],
          [''2025-05-29 13:00'', ''2025-05-30 11:00'', ''2025-05-30 16:00''],
          [''2025-05-29 10:00'', ''2025-05-30 14:00'', ''2025-05-31 09:00'']]"
    by (simp add: reserve_slot_def data_store_def)
  from reserve_slot_spec[of data_store "''dr001''" "''2025-05-29 14:00''" "\<lambda>fee. ''150.0''"] ok
  obtain d where "contains ((\<lambda>fee. ''150.0'') (consultation_fee d))
      (render (\<lambda>fee. ''150.0'') (fst (reserve_slot data_store ''dr001'' ''2025-05-29 14:00'')))"
    by blast
  then have fee: "contains ''150.0''
      (render (\<lambda>fee. ''150.0'') (fst (reserve_slot data_store ''dr001'' ''2025-05-29 14:00'')))"
    by simp
  from ok r1 r2 fee fail show ?thesis by (intro conjI)
qed

section \<open>Cancelling an appointment\<close>

lemma release_slot_none:
  "\<forall>e\<in>set ds. doc_id e \<noteq> did \<Longrightarrow> release_slot ds did slot = ds"
  by (induction ds) auto

lemma release_slot_first:
  "\<forall>e\<in>set dpre. doc_id e \<noteq> did \<Longrightarrow> doc_id d = did
   \<Longrightarrow> release_slot (dpre @ d # dpost) did slot =
         dpre @ d\<lparr>available_slots := sort (available_slots d @ [slot])\<rparr> # dpost"
  by (induction dpre) auto

lemma cancel_loop_none:
  "\<forall>a\<in>set as. apt_id a \<noteq> aid \<Longrightarrow> cancel_loop as ds aid = (AppointmentNotFound aid, as, ds)"
  by (induction as) auto

lemma cancel_loop_first:
  "\<forall>b\<in>set pre. apt_id b \<noteq> aid \<Longrightarrow> apt_id a = aid
   \<Longrightarrow> cancel_loop (pre @ a # post) ds aid =
         (if status a = CANCELLED then (AlreadyCancelled aid, pre @ a # post, ds)
          else (CancelledSuccessfully aid, pre @ a\<lparr>status := CANCELLED\<rparr> # post,
                release_slot ds (doctor_id a) (appointment_time a)))"
  by (induction pre) auto

lemma render_cancel_replies_differ:
  "render str_fee (AlreadyCancelled aid) \<noteq> render str_fee (AppointmentNotFound aid)"
proof
  assume "render str_fee (AlreadyCancelled aid) = render str_fee (AppointmentNotFound aid)"
  then have "length (render str_fee (AlreadyCancelled aid))
      = length (render str_fee (AppointmentNotFound aid))"
    by (rule arg_cong)
  then show False by simp
qed

text \<open>
  C2. Cancelling an id that no appointment of the ledger has returns the not-found reply
  and leaves the store as it was. When the first appointment with the id is already
  cancelled, the reply is the already-cancelled one (a reply of its own, with a text
  other than the not-found text) and the store stays as it was. Otherwise the slot of
  that appointment is appended to the available slots of the first doctor with the
  appointment's doctor id, that list is sorted (ascending afterwards, with the same
  slots plus the released one), the appointment's status becomes cancelled, and nothing
  else changes.
\<close>

theorem cancel_appointment_spec:
  "((\<forall>a\<in>set (appointments s). apt_id a \<noteq> aid)
      \<longrightarrow> cancel_appointment s aid = (AppointmentNotFound aid, s))
   \<and> (appointments s = pre @ a # post \<and> (\<forall>b\<in>set pre. apt_id b \<noteq> aid) \<and> apt_id a = aid
        \<and> status a = CANCELLED
      \<longrightarrow> cancel_appointment s aid = (AlreadyCancelled aid, s)
          \<and> render str_fee (AlreadyCancelled aid) \<noteq> render str_fee (AppointmentNotFound aid))
   \<and> (appointments s = pre @ a # post \<and> (\<forall>b\<in>set pre. apt_id b \<noteq> aid) \<and> apt_id a = aid
        \<and> status a \<noteq> CANCELLED
        \<and> doctors s = dpre @ d # dpost \<and> (\<forall>e\<in>set dpre. doc_id e \<noteq> doctor_id a)
        \<and> doc_id d = doctor_id a
      \<longrightarrow> cancel_appointment s aid =
            (CancelledSuccessfully aid,
             s\<lparr>doctors :=
                  dpre @ d\<lparr>available_slots := sort (available_slots d @ [appointment_time a])\<rparr>
                  # dpost,
               appointments := pre @ a\<lparr>status := CANCELLED\<rparr> # post\<rparr>)
          \<and> sorted (sort (available_slots d @ [appointment_time a]))
          \<and> set (sort (available_slots d @ [appointment_time a]))
              = insert (appointment_time a) (set (available_slots d))
          \<and> length (sort (available_slots d @ [appointment_time a]))
              = Suc (length (available_slots d)))"
proof (intro conjI impI)
  assume "\<forall>a\<in>set (appointments s). apt_id a \<noteq> aid"
  then show "cancel_appointment s aid = (AppointmentNotFound aid, s)"
    by (simp add: cancel_appointment_def cancel_loop_none)
next
  assume h: "appointments s = pre @ a # post \<and> (\<forall>b\<in>set pre. apt_id b \<noteq> aid) \<and> apt_id a = aid
        \<and> status a = CANCELLED"
  then have "cancel_loop (appointments s) (doctors s) aid
      = (AlreadyCancelled aid, appointments s, doctors s)"
    using cancel_loop_first[of pre aid a post "doctors s"] by simp
  then show "cancel_appointment s aid = (AlreadyCancelled aid, s)"
    by (simp add: cancel_appointment_def)
next
  show "render str_fee (AlreadyCancelled aid) \<noteq> render str_fee (AppointmentNotFound aid)"
    by (rule render_cancel_replies_differ)
next
  assume h: "appointments s = pre @ a # post \<and> (\<forall>b\<in>set pre. apt_id b \<noteq> aid) \<and> apt_id a = aid
        \<and> status a \<noteq> CANCELLED
        \<and> doctors s = dpre @ d # dpost \<and> (\<forall>e\<in>set dpre. doc_id e \<noteq> doctor_id a)
        \<and> doc_id d = doctor_id a"
  then have rel: "release_slot (doctors s) (doctor_id a) (appointment_time a)
      = dpre @ d\<lparr>available_slots := sort (available_slots d @ [appointment_time a])\<rparr> # dpost"
    using release_slot_first[of dpre "doctor_id a" d dpost "appointment_time a"] by simp
  from h have "cancel_loop (appointments s) (doctors s) aid
      = (CancelledSuccessfully aid, pre @ a\<lparr>status := CANCELLED\<rparr> # post,
         release_slot (doctors s) (doctor_id a) (appointment_time a))"
    using cancel_loop_first[of pre aid a post "doctors s"] by simp
  then show "cancel_appointment s aid =
            (CancelledSuccessfully aid,
             s\<lparr>doctors :=
                  dpre @ d\<lparr>available_slots := sort (available_slots d @ [appointment_time a])\<rparr>
                  # dpost,
               appointments := pre @ a\<lparr>status := CANCELLED\<rparr> # post\<rparr>)"
    by (simp add: cancel_appointment_def rel)
next
  show "sorted (sort (available_slots d @ [appointment_time a]))" by simp
next
  show "set (sort (available_slots d @ [appointment_time a]))
      = insert (appointment_time a) (set (available_slots d))" by simp
next
  show "length (sort (available_slots d @ [appointment_time a]))
      = Suc (length (available_slots d))" by simp
qed


lemma booked_once_value:
  "booked_once =
     \<lparr>doctors =
        [\<lparr>doc_id = ''dr001'', name = ''Dr. Sarah Johnson'', specialty = ''Cardiology'',
          available_slots = [''2025-05-29 14:00'', ''2025-05-30 10:00''],
          consultation_fee = 150\<rparr>,
         \<lparr>doc_id = ''dr002'', name = ''Dr. Michael Chen'', specialty = ''Dermatology'',
          available_slots = [''2025-05-29 11:00'', ''2025-05-29 15:30'', ''2025-05-30 09:30''],
          consultation_fee = 120\<rparr>,
         \<lparr>doc_id = ''dr003'', name = ''Dr. Emily Rodriguez'', specialty = ''Pediatrics'',
          available_slots = [''2025-05-29 13:00'', ''2025-05-30 11:00'', ''2025-05-30 16:00''],
          consultation_fee = 100\<rparr>,
         \<lparr>doc_id = ''dr004'', name = ''Dr. James Wilson'', specialty = ''Orthopedics'',
          available_slots = [''2025-05-29 10:00'', ''2025-05-30 14:00'', ''2025-05-31 09:00''],
          consultation_fee = 180\<rparr>],
      appointments =
        [\<lparr>apt_id = ''APT0001'', doctor_id = ''dr001'', doctor_name = ''Dr. Sarah Johnson'',
          patient_name = ''John Smith'', patient_phone = None,
          appointment_time = ''2025-05-29 09:00'', apt_specialty = ''Cardiology'',
          status = SCHEDULED, apt_consultation_fee = 150, apt_notes = None\<rparr>],
      appointment_counter = 2\<rparr>"
  by code_simp

lemma cancelled_once_value:
  "cancelled_once =
     \<lparr>doctors = doctors data_store,
      appointments =
        [\<lparr>apt_id = ''APT0001'', doctor_id = ''dr001'', doctor_name = ''Dr. Sarah Johnson'',
          patient_name = ''John Smith'', patient_phone = None,
          appointment_time = ''2025-05-29 09:00'', apt_specialty = ''Cardiology'',
          status = CANCELLED, apt_consultation_fee = 150, apt_notes = None\<rparr>],
      appointment_counter = 2\<rparr>"
  by code_simp

theorem cancel_appointment_spec_witness:
  "cancel_appointment data_store ''APT0001'' = (AppointmentNotFound ''APT0001'', data_store)
   \<and> cancel_appointment booked_once ''APT0001''
       = (CancelledSuccessfully ''APT0001'', cancelled_once)
   \<and> map status (appointments cancelled_once) = [CANCELLED]
   \<and> map available_slots (doctors cancelled_once)
       = [[''2025-05-29 09:00'', ''2025-05-29 14:00'', ''2025-05-30 10:00''],
          [''2025-05-29 11:00'', ''2025-05-29 15:30'', ''2025-05-30 09:30''],
          [''2025-05-29 13:00'', ''2025-05-30 11:00'', ''2025-05-30 16:00''],
          [''2025-05-29 10:00'', ''2025-05-30 14:00'', ''2025-05-31 09:00'']]
   \<and> cancel_appointment cancelled_once ''APT0001'' = (AlreadyCancelled ''APT0001'', cancelled_once)"
proof -
  have absent: "cancel_appointment data_store ''APT0001''
      = (AppointmentNotFound ''APT0001'', data_store)"
    using cancel_appointment_spec[of data_store "''APT0001''"]
    by (simp add: data_store_def)
  have first: "cancel_appointment booked_once ''APT0001''
      = (CancelledSuccessfully ''APT0001'', cancelled_once)"
    using cancel_appointment_spec[where s = booked_once and aid = "''APT0001''"
        and pre = "[]" and a = "hd (appointments booked_once)" and post = "[]"
        and dpre = "[]" and d = "hd (doctors booked_once)" and dpost = "tl (doctors booked_once)"]
    by (simp add: cancelled_once_def booked_once_value)
  have st: "map status (appointments cancelled_once) = [CANCELLED]"
    by (simp add: cancelled_once_value)
  have sl: "map available_slots (doctors cancelled_once)
       = [[''2025-05-29 09:00'', ''2025-05-29 14:00'', ''2025-05-30 10:00''],
          [''2025-05-29 11:00'', ''2025-05-29 15:30'', ''2025-05-30 09:30''],
          [''2025-05-29 13:00'', ''2025-05-30 11:00'', ''2025-05-30 16:00''],
          [''2025-05-29 10:00'', ''2025-05-30 14:00'', ''2025-05-31 09:00'']]"
    by (simp add: cancelled_once_value data_store_def)
  have again: "cancel_appointment cancelled_once ''APT0001''
      = (AlreadyCancelled ''APT0001'', cancelled_once)"
    using cancel_appointment_spec[of cancelled_once "''APT0001''" "[]"
        "hd (appointments cancelled_once)" "[]"]
    by (simp add: cancelled_once_value)
  from absent first st sl again show ?thesis by (intro conjI)
qed

section \<open>Listing appointments\<close>







section \<open>Extracting the appointment identifier\<close>

lemma re_search_finds:
  "re_search m s \<noteq> None \<longleftrightarrow> (\<exists>t. suffix t s \<and> m t \<noteq> None)"
proof (induction s)
  case Nil
  then show ?case by simp
next
  case (Cons c cs)
  show ?case
  proof (cases "m (c # cs)")
    case None
    then have "re_search m (c # cs) = re_search m cs" by simp
    moreover have "(\<exists>t. suffix t (c # cs) \<and> m t \<noteq> None) \<longleftrightarrow> (\<exists>t. suffix t cs \<and> m t \<noteq> None)"
      using None by (auto simp: suffix_Cons)
    ultimately show ?thesis using Cons.IH by simp
  next
    case (Some g)
    then have "re_search m (c # cs) \<noteq> None" by simp
    moreover have "\<exists>t. suffix t (c # cs) \<and> m t \<noteq> None"
      using Some by (intro exI[of _ "c # cs"]) simp
    ultimately show ?thesis by simp
  qed
qed

lemma re_search_leftmost:
  "re_search m s = Some r \<Longrightarrow>
   \<exists>pre t. s = pre @ t \<and> m t = Some r
     \<and> (\<forall>pre' t'. s = pre' @ t' \<and> length pre' < length pre \<longrightarrow> m t' = None)"
proof (induction s)
  case Nil
  show ?case
  proof (intro exI conjI allI impI)
    show "[] = [] @ []" by simp
    show "m [] = Some r" using Nil by simp
    show "m t' = None" if "[] = pre' @ t' \<and> length pre' < length []" for pre' t'
      using that by simp
  qed
next
  case (Cons c cs)
  show ?case
  proof (cases "m (c # cs)")
    case (Some g)
    with Cons.prems have g: "g = r" by simp
    show ?thesis
    proof (intro exI conjI allI impI)
      show "c # cs = [] @ (c # cs)" by simp
      show "m (c # cs) = Some r" using Some g by simp
      show "m t' = None" if "c # cs = pre' @ t' \<and> length pre' < length []" for pre' t'
        using that by simp
    qed
  next
    case None
    with Cons.prems have "re_search m cs = Some r" by simp
    from Cons.IH[OF this] obtain pre t where ih: "cs = pre @ t" "m t = Some r"
        "\<forall>pre' t'. cs = pre' @ t' \<and> length pre' < length pre \<longrightarrow> m t' = None"
      by (elim exE conjE) (rule that)
    show ?thesis
    proof (intro exI conjI allI impI)
      show "c # cs = (c # pre) @ t" using ih(1) by simp
      show "m t = Some r" by (rule ih(2))
      show "m t' = None" if h: "c # cs = pre' @ t' \<and> length pre' < length (c # pre)" for pre' t'
      proof (cases pre')
        case Nil
        with h None show ?thesis by simp
      next
        case (Cons x xs)
        with h have "cs = xs @ t' \<and> length xs < length pre" by simp
        moreover from ih(3) have "cs = xs @ t' \<and> length xs < length pre \<longrightarrow> m t' = None"
          by (elim allE)
        ultimately show ?thesis by (elim impE)
      qed
    qed
  qed
qed

lemma length_text_of_APT: "length (text_of ''APT'') = 3"
  by (simp add: text_of_def)

lemma appointment_id_at_Some:
  "appointment_id_at is_decimal t = Some r \<longleftrightarrow>
     (\<exists>ds. length ds = 4 \<and> list_all is_decimal ds \<and> prefix (text_of ''APT'' @ ds) t
          \<and> r = text_of ''APT'' @ ds)"
proof
  assume a: "appointment_id_at is_decimal t = Some r"
  let ?ds = "take 4 (drop 3 t)"
  from a have p: "prefix (text_of ''APT'') t" and l: "length ?ds = 4"
      and d: "list_all is_decimal ?ds" and r: "r = take 7 t"
    by (auto simp: appointment_id_at_def split: if_splits)
  from p obtain rest where t: "t = text_of ''APT'' @ rest" by (auto simp: prefix_def)
  have "r = text_of ''APT'' @ take 4 rest"
    using r t length_text_of_APT by simp
  moreover have "prefix (text_of ''APT'' @ take 4 rest) t"
    using t by (simp add: take_is_prefix)
  moreover have "length (take 4 rest) = 4" "list_all is_decimal (take 4 rest)"
    using l d t length_text_of_APT by simp_all
  ultimately show "\<exists>ds. length ds = 4 \<and> list_all is_decimal ds
      \<and> prefix (text_of ''APT'' @ ds) t \<and> r = text_of ''APT'' @ ds"
    by blast
next
  assume "\<exists>ds. length ds = 4 \<and> list_all is_decimal ds \<and> prefix (text_of ''APT'' @ ds) t
      \<and> r = text_of ''APT'' @ ds"
  then obtain ds rest where ds: "length ds = 4" "list_all is_decimal ds"
      and t: "t = (text_of ''APT'' @ ds) @ rest" and r: "r = text_of ''APT'' @ ds"
    by (auto simp: prefix_def)
  show "appointment_id_at is_decimal t = Some r"
    using ds t r length_text_of_APT by (simp add: appointment_id_at_def)
qed


text \<open>
  C9. As the code has it, for every message the extraction yields a result exactly when
  the message, upper-cased by \<^verbatim>\<open>str.upper\<close>, contains \<open>APT\<close> directly followed by four
  decimal digits; more digits may follow. The result is \<open>APT\<close> and four digits at the
  leftmost such place of the upper-cased message. When the upper-cased message is \<open>APT\<close>
  and four or more digits, the result is \<open>APT\<close> with the first four of them.
\<close>

theorem apt_id_match_spec:
  "(apt_id_match str_upper is_decimal message \<noteq> None \<longleftrightarrow>
      (\<exists>ds. length ds = 4 \<and> list_all is_decimal ds
            \<and> sublist (text_of ''APT'' @ ds) (str_upper message)))
   \<and> (apt_id_match str_upper is_decimal message = Some r \<longrightarrow>
        (\<exists>pre ds post. str_upper message = pre @ r @ post \<and> r = text_of ''APT'' @ ds
            \<and> length ds = 4 \<and> list_all is_decimal ds
            \<and> (\<forall>pre' ds' post'.
                   str_upper message = pre' @ (text_of ''APT'' @ ds') @ post'
                   \<and> length ds' = 4 \<and> list_all is_decimal ds'
                   \<longrightarrow> length pre \<le> length pre')))
   \<and> (str_upper message = text_of ''APT'' @ digits \<and> list_all is_decimal digits
        \<and> 4 \<le> length digits \<longrightarrow>
        apt_id_match str_upper is_decimal message = Some (text_of ''APT'' @ take 4 digits))"
proof (intro conjI impI)
  have "apt_id_match str_upper is_decimal message \<noteq> None \<longleftrightarrow>
      (\<exists>t. suffix t (str_upper message) \<and> appointment_id_at is_decimal t \<noteq> None)"
    by (simp only: apt_id_match_def re_search_finds)
  also have "\<dots> \<longleftrightarrow> (\<exists>t ds. suffix t (str_upper message) \<and> length ds = 4
      \<and> list_all is_decimal ds \<and> prefix (text_of ''APT'' @ ds) t)"
    using appointment_id_at_Some[of is_decimal] by (metis not_Some_eq)
  also have "\<dots> \<longleftrightarrow> (\<exists>ds. length ds = 4 \<and> list_all is_decimal ds
      \<and> (\<exists>t. suffix t (str_upper message) \<and> prefix (text_of ''APT'' @ ds) t))"
    by blast
  also have "\<dots> \<longleftrightarrow> (\<exists>ds. length ds = 4 \<and> list_all is_decimal ds
      \<and> sublist (text_of ''APT'' @ ds) (str_upper message))"
    by (simp only: sublist_altdef')
  finally show "apt_id_match str_upper is_decimal message \<noteq> None \<longleftrightarrow>
      (\<exists>ds. length ds = 4 \<and> list_all is_decimal ds
            \<and> sublist (text_of ''APT'' @ ds) (str_upper message))" .
next
  assume "apt_id_match str_upper is_decimal message = Some r"
  then have "re_search (appointment_id_at is_decimal) (str_upper message) = Some r"
    by (simp only: apt_id_match_def)
  from re_search_leftmost[OF this] obtain pre t where t: "str_upper message = pre @ t"
      "appointment_id_at is_decimal t = Some r"
      and left: "\<forall>pre' t'. str_upper message = pre' @ t' \<and> length pre' < length pre
          \<longrightarrow> appointment_id_at is_decimal t' = None"
    by (elim exE conjE) (rule that)
  from t(2) obtain ds where ds: "length ds = 4" "list_all is_decimal ds"
      "prefix (text_of ''APT'' @ ds) t" "r = text_of ''APT'' @ ds"
    using appointment_id_at_Some[of is_decimal t r] by blast
  from ds(3,4) obtain post where post: "t = r @ post" by (auto simp: prefix_def)
  have leftmost: "length pre \<le> length pre'"
    if h: "str_upper message = pre' @ (text_of ''APT'' @ ds') @ post'
        \<and> length ds' = 4 \<and> list_all is_decimal ds'" for pre' ds' post'
  proof (rule ccontr)
    assume "\<not> length pre \<le> length pre'"
    then have "length pre' < length pre" by simp
    with h left have none: "appointment_id_at is_decimal ((text_of ''APT'' @ ds') @ post') = None"
      by blast
    have "prefix (text_of ''APT'' @ ds') ((text_of ''APT'' @ ds') @ post')" by simp
    with h have "appointment_id_at is_decimal ((text_of ''APT'' @ ds') @ post')
        = Some (text_of ''APT'' @ ds')"
      using appointment_id_at_Some[of is_decimal "(text_of ''APT'' @ ds') @ post'"
          "text_of ''APT'' @ ds'"] by blast
    with none show False by simp
  qed
  show "\<exists>pre ds post. str_upper message = pre @ r @ post \<and> r = text_of ''APT'' @ ds
            \<and> length ds = 4 \<and> list_all is_decimal ds
            \<and> (\<forall>pre' ds' post'.
                   str_upper message = pre' @ (text_of ''APT'' @ ds') @ post'
                   \<and> length ds' = 4 \<and> list_all is_decimal ds'
                   \<longrightarrow> length pre \<le> length pre')"
  proof (intro exI conjI allI impI)
    show "str_upper message = pre @ r @ post" using t(1) post by simp
    show "r = text_of ''APT'' @ ds" by (rule ds(4))
    show "length ds = 4" by (rule ds(1))
    show "list_all is_decimal ds" by (rule ds(2))
    show "length pre \<le> length pre'"
      if "str_upper message = pre' @ (text_of ''APT'' @ ds') @ post'
        \<and> length ds' = 4 \<and> list_all is_decimal ds'" for pre' ds' post'
      using that by (rule leftmost)
  qed
next
  assume a: "str_upper message = text_of ''APT'' @ digits \<and> list_all is_decimal digits
        \<and> 4 \<le> length digits"
  then have "list_all is_decimal (take 4 digits)"
    by (auto simp: list_all_iff dest: in_set_takeD)
  moreover have "length (take 4 digits) = 4" using a by simp
  moreover have "prefix (text_of ''APT'' @ take 4 digits) (text_of ''APT'' @ digits)"
    by (simp add: take_is_prefix)
  ultimately have at: "appointment_id_at is_decimal (text_of ''APT'' @ digits)
      = Some (text_of ''APT'' @ take 4 digits)"
    using appointment_id_at_Some[of is_decimal "text_of ''APT'' @ digits"
        "text_of ''APT'' @ take 4 digits"] by blast
  have "text_of ''APT'' @ digits = 65 # (80 # 84 # digits)"
    by (simp add: text_of_def)
  then have "re_search (appointment_id_at is_decimal) (text_of ''APT'' @ digits)
      = Some (text_of ''APT'' @ take 4 digits)"
    using at by simp
  then show "apt_id_match str_upper is_decimal message = Some (text_of ''APT'' @ take 4 digits)"
    using a by (simp only: apt_id_match_def)
qed

theorem apt_id_match_spec_witness:
  "ascii_upper (text_of ''apt00123'') = text_of ''APT'' @ text_of ''00123''
   \<and> list_all ascii_decimal (text_of ''00123'') \<and> (4::nat) \<le> length (text_of ''00123'')
   \<and> apt_id_match ascii_upper ascii_decimal (text_of ''apt00123'') = Some (text_of ''APT0012'')
   \<and> sublist (text_of ''APT0012'') (ascii_upper (text_of ''apt00123''))"
proof -
  have h: "ascii_upper (text_of ''apt00123'') = text_of ''APT'' @ text_of ''00123''
      \<and> list_all ascii_decimal (text_of ''00123'') \<and> (4::nat) \<le> length (text_of ''00123'')"
    by code_simp
  then have "apt_id_match ascii_upper ascii_decimal (text_of ''apt00123'')
      = Some (text_of ''APT'' @ take 4 (text_of ''00123''))"
    using apt_id_match_spec[of ascii_upper ascii_decimal "text_of ''apt00123''" _ "text_of ''00123''"]
    by blast
  moreover have "text_of ''APT'' @ take 4 (text_of ''00123'') = text_of ''APT0012''"
    by (simp add: text_of_def)
  ultimately have e: "apt_id_match ascii_upper ascii_decimal (text_of ''apt00123'')
      = Some (text_of ''APT0012'')"
    by simp
  from apt_id_match_spec[of ascii_upper ascii_decimal "text_of ''apt00123''" "text_of ''APT0012''"] e
  obtain pre post where "ascii_upper (text_of ''apt00123'') = pre @ text_of ''APT0012'' @ post"
    by blast
  then have "sublist (text_of ''APT0012'') (ascii_upper (text_of ''apt00123''))"
    by (auto simp: sublist_def)
  with h e show ?thesis by simp
qed

theorem extract_appointment_id_five_digits:
  "extract_appointment_id ''cancel appointment APT12345'' = Some ''APT1234''"
  by code_simp

section \<open>Booking an appointment\<close>

lemma preferred_slot_in_set:
  "preferred_slot pt slots = Some sl \<Longrightarrow> sl \<in> set slots"
  by (auto simp: preferred_slot_def find_Some_iff split: option.splits if_splits)

lemma contains_nonempty: "contains needle hay \<Longrightarrow> needle \<noteq> [] \<Longrightarrow> hay \<noteq> []"
  by (cases hay) auto

lemma preferred_slot_nonblank:
  "preferred_slot pt slots = Some sl \<Longrightarrow> sl \<noteq> []"
proof -
  assume a: "preferred_slot pt slots = Some sl"
  then obtain p where p: "pt = Some p" "p \<noteq> []"
    by (auto simp: preferred_slot_def split: option.splits if_splits)
  show ?thesis
  proof (cases "map_of booking_time_patterns p")
    case None
    with a p have "contains p sl"
      by (auto simp: preferred_slot_def find_Some_iff)
    with p(2) show ?thesis using contains_nonempty by blast
  next
    case (Some hours)
    with a p have "list_ex (\<lambda>time. contains time sl) hours"
      by (auto simp: preferred_slot_def find_Some_iff)
    then obtain h where h: "h \<in> set hours" "contains h sl"
      by (auto simp: list_ex_iff)
    from Some h(1) have "h \<noteq> []"
      by (auto simp: booking_time_patterns_def split: if_splits)
    with h(2) show ?thesis using contains_nonempty by blast
  qed
qed

lemma select_slot_eq:
  "select_slot pt slots =
     (case preferred_slot pt slots of
        Some sl \<Rightarrow> Some sl
      | None \<Rightarrow> (case slots of [] \<Rightarrow> None | first # _ \<Rightarrow> if first = [] then None else Some first))"
proof (cases "preferred_slot pt slots")
  case None
  then show ?thesis by (simp add: select_slot_def split: list.splits)
next
  case (Some sl)
  then have "sl \<noteq> []" by (rule preferred_slot_nonblank)
  with Some show ?thesis by (simp add: select_slot_def)
qed

lemma select_slot_in_set: "select_slot pt slots = Some sl \<Longrightarrow> sl \<in> set slots"
  by (auto simp: select_slot_eq dest: preferred_slot_in_set split: option.splits list.splits if_splits)

lemma book_loop_Some:
  "book_loop keep pt ds = Some (doctor, sl, ds') \<Longrightarrow>
   \<exists>pre post. ds = pre @ doctor # post
     \<and> (\<forall>e\<in>set pre. \<not> (keep e \<and> available_slots e \<noteq> []
           \<and> select_slot pt (available_slots e) \<noteq> None))
     \<and> keep doctor \<and> available_slots doctor \<noteq> []
     \<and> select_slot pt (available_slots doctor) = Some sl
     \<and> ds' = pre @ doctor\<lparr>available_slots := remove1 sl (available_slots doctor)\<rparr> # post"
proof (induction ds arbitrary: ds')
  case Nil
  then show ?case by simp
next
  case (Cons d ds)
  let ?here = "if keep d \<and> available_slots d \<noteq> [] then select_slot pt (available_slots d) else None"
  show ?case
  proof (cases ?here)
    case (Some x)
    with Cons.prems have eq: "doctor = d" "sl = x"
        "ds' = d\<lparr>available_slots := remove1 x (available_slots d)\<rparr> # ds"
      by auto
    from Some have "keep d" "available_slots d \<noteq> []" "select_slot pt (available_slots d) = Some x"
      by (simp_all split: if_splits)
    with eq show ?thesis
      by (intro exI[of _ "[]"] exI[of _ ds]) simp
  next
    case None
    with Cons.prems obtain ds0 where rec: "book_loop keep pt ds = Some (doctor, sl, ds0)"
        and ds': "ds' = d # ds0"
      by (auto split: option.splits)
    from Cons.IH[OF rec] obtain pre post where ih: "ds = pre @ doctor # post"
        "\<forall>e\<in>set pre. \<not> (keep e \<and> available_slots e \<noteq> []
           \<and> select_slot pt (available_slots e) \<noteq> None)"
        "keep doctor" "available_slots doctor \<noteq> []"
        "select_slot pt (available_slots doctor) = Some sl"
        "ds0 = pre @ doctor\<lparr>available_slots := remove1 sl (available_slots doctor)\<rparr> # post"
      by blast
    from None have "\<not> (keep d \<and> available_slots d \<noteq> []
           \<and> select_slot pt (available_slots d) \<noteq> None)"
      by (auto split: if_splits)
    with ih ds' show ?thesis
      by (intro exI[of _ "d # pre"] exI[of _ post]) simp
  qed
qed

lemma book_loop_first:
  "\<forall>e\<in>set pre. \<not> (keep e \<and> available_slots e \<noteq> [] \<and> select_slot pt (available_slots e) \<noteq> None)
   \<Longrightarrow> keep d \<Longrightarrow> available_slots d \<noteq> [] \<Longrightarrow> select_slot pt (available_slots d) = Some sl
   \<Longrightarrow> book_loop keep pt (pre @ d # post) =
         Some (d, sl, pre @ d\<lparr>available_slots := remove1 sl (available_slots d)\<rparr> # post)"
  by (induction pre) auto

lemma book_loop_None:
  "\<forall>e\<in>set ds. \<not> (keep e \<and> available_slots e \<noteq> [] \<and> select_slot pt (available_slots e) \<noteq> None)
   \<Longrightarrow> book_loop keep pt ds = None"
  by (induction ds) auto

lemma book_appointment_cases:
  "(book_appointment s pname sp_opt pt phone = (NoDoctorsAvailable sp_opt, s)
      \<and> filter (candidate sp_opt) (doctors s) = [])
   \<or> (book_appointment s pname sp_opt pt phone = (NoMatchingAppointments, s)
      \<and> book_loop (candidate sp_opt) pt (doctors s) = None)
   \<or> (\<exists>doctor sl ds'. book_loop (candidate sp_opt) pt (doctors s) = Some (doctor, sl, ds')
        \<and> book_appointment s pname sp_opt pt phone =
            (AppointmentBooked (new_appointment (appointment_counter s) doctor pname phone sl),
             s\<lparr>doctors := ds',
               appointments := appointments s
                 @ [new_appointment (appointment_counter s) doctor pname phone sl],
               appointment_counter := appointment_counter s + 1\<rparr>))"
  by (cases "book_loop (candidate sp_opt) pt (doctors s)")
     (auto simp: book_appointment_def Let_def)


lemma find_pointwise:
  "(\<And>x. x \<in> set xs \<Longrightarrow> P x = Q x) \<Longrightarrow> find P xs = find Q xs"
  by (induction xs) auto

lemma find_never: "find (\<lambda>x. False) xs = None"
  by (induction xs) simp_all

lemma preferred_slot_spec:
  "preferred_slot pt slots = find (spec_time_match pt) slots"
proof (cases pt)
  case None
  have "preferred_slot pt slots = find (\<lambda>slot. False) slots"
    using None by (simp add: preferred_slot_def find_never)
  also have "\<dots> = find (spec_time_match pt) slots"
    using None by (intro find_pointwise) (simp add: spec_time_match_def)
  finally show ?thesis .
next
  case (Some p)
  consider (empty) "p = []" | (morning) "p = ''morning''" | (afternoon) "p = ''afternoon''"
    | (evening) "p = ''evening''"
    | (literal) "p \<noteq> []" "p \<noteq> ''morning''" "p \<noteq> ''afternoon''" "p \<noteq> ''evening''"
    by blast
  then show ?thesis
  proof cases
    case empty
    have "preferred_slot pt slots = find (\<lambda>slot. False) slots"
      using Some empty by (simp add: preferred_slot_def find_never)
    also have "\<dots> = find (spec_time_match pt) slots"
      using Some empty by (intro find_pointwise) (simp add: spec_time_match_def)
    finally show ?thesis .
  next
    case morning
    have "preferred_slot pt slots =
        find (\<lambda>slot. list_ex (\<lambda>time. contains time slot) [''09:00'', ''10:00'', ''11:00'']) slots"
      using Some morning by (simp add: preferred_slot_def booking_time_patterns_def)
    also have "\<dots> = find (spec_time_match pt) slots"
      using Some morning
      by (intro find_pointwise) (simp add: spec_time_match_def contains_sublist)
    finally show ?thesis .
  next
    case afternoon
    have "preferred_slot pt slots =
        find (\<lambda>slot. list_ex (\<lambda>time. contains time slot) [''14:00'', ''15:00'', ''16:00'']) slots"
      using Some afternoon by (simp add: preferred_slot_def booking_time_patterns_def)
    also have "\<dots> = find (spec_time_match pt) slots"
      using Some afternoon
      by (intro find_pointwise) (simp add: spec_time_match_def contains_sublist)
    finally show ?thesis .
  next
    case evening
    have "preferred_slot pt slots =
        find (\<lambda>slot. list_ex (\<lambda>time. contains time slot) [''17:00'', ''18:00'']) slots"
      using Some evening by (simp add: preferred_slot_def booking_time_patterns_def)
    also have "\<dots> = find (spec_time_match pt) slots"
      using Some evening
      by (intro find_pointwise) (simp add: spec_time_match_def contains_sublist)
    finally show ?thesis .
  next
    case literal
    then have "map_of booking_time_patterns p = None"
      by (simp add: booking_time_patterns_def)
    then have "preferred_slot pt slots = find (\<lambda>slot. contains p slot) slots"
      using Some literal by (simp add: preferred_slot_def)
    also have "\<dots> = find (spec_time_match pt) slots"
      using Some literal
      by (intro find_pointwise) (simp add: spec_time_match_def contains_sublist)
    finally show ?thesis .
  qed
qed

lemma select_slot_spec:
  "[] \<notin> set slots \<Longrightarrow> select_slot pt slots = spec_slot_choice pt slots"
  by (auto simp: select_slot_eq spec_slot_choice_def preferred_slot_spec
      split: option.splits list.splits)


lemma candidate_Some:
  "candidate (Some sp) d \<longleftrightarrow> sublist (lower sp) (lower (specialty d))"
  by (cases "sp = []") (simp_all add: candidate_def matches_specialty_def contains_sublist lower_def)

text \<open>
  C4. An appointment that \<open>book_appointment\<close> creates for a request with a specialty is
  with a doctor of the store whose specialty, lowered, contains the lowered request, and
  it is appended to the ledger. Whenever no appointment is created the reply is one of
  the two failure replies and the whole store, the ledger and the counter with it, is as
  before. That happens when no doctor matches the filter, and when every doctor that
  matches has no slot left.
\<close>

theorem book_appointment_specialty:
  "(book_appointment s pname (Some sp) pt phone = (AppointmentBooked a, s') \<longrightarrow>
        sublist (lower sp) (lower (apt_specialty a))
      \<and> (\<exists>d\<in>set (doctors s). doc_id d = doctor_id a \<and> name d = doctor_name a
            \<and> specialty d = apt_specialty a
            \<and> sublist (lower sp) (lower (specialty d)))
      \<and> appointments s' = appointments s @ [a])
   \<and> ((\<forall>b. fst (book_appointment s pname sp_opt pt phone) \<noteq> AppointmentBooked b) \<longrightarrow>
        snd (book_appointment s pname sp_opt pt phone) = s
      \<and> fst (book_appointment s pname sp_opt pt phone)
          \<in> {NoDoctorsAvailable sp_opt, NoMatchingAppointments})
   \<and> ((\<forall>d\<in>set (doctors s). \<not> candidate sp_opt d) \<longrightarrow>
        book_appointment s pname sp_opt pt phone = (NoDoctorsAvailable sp_opt, s))
   \<and> ((\<exists>d\<in>set (doctors s). candidate sp_opt d)
        \<and> (\<forall>d\<in>set (doctors s). candidate sp_opt d \<longrightarrow> available_slots d = []) \<longrightarrow>
        book_appointment s pname sp_opt pt phone = (NoMatchingAppointments, s))"
proof (intro conjI impI)
  assume booked: "book_appointment s pname (Some sp) pt phone = (AppointmentBooked a, s')"
  with book_appointment_cases[of s pname "Some sp" pt phone]
  obtain doctor sl ds' where loop: "book_loop (candidate (Some sp)) pt (doctors s) = Some (doctor, sl, ds')"
      and a: "a = new_appointment (appointment_counter s) doctor pname phone sl"
      and s': "s' = s\<lparr>doctors := ds', appointments := appointments s @ [a],
                 appointment_counter := appointment_counter s + 1\<rparr>"
    by auto
  from book_loop_Some[OF loop] have mem: "doctor \<in> set (doctors s)"
      and keep: "candidate (Some sp) doctor"
    by auto
  from keep have sub: "sublist (lower sp) (lower (specialty doctor))"
    by (simp add: candidate_Some)
  from a have fields: "doctor_id a = doc_id doctor" "doctor_name a = name doctor"
      "apt_specialty a = specialty doctor"
    by (simp_all add: new_appointment_def)
  show "sublist (lower sp) (lower (apt_specialty a))"
    using sub fields by simp
  show "\<exists>d\<in>set (doctors s). doc_id d = doctor_id a \<and> name d = doctor_name a
            \<and> specialty d = apt_specialty a \<and> sublist (lower sp) (lower (specialty d))"
    using mem sub fields by (intro bexI[of _ doctor]) simp_all
  show "appointments s' = appointments s @ [a]"
    using s' by simp
next
  assume none: "\<forall>b. fst (book_appointment s pname sp_opt pt phone) \<noteq> AppointmentBooked b"
  with book_appointment_cases[of s pname sp_opt pt phone]
  have "book_appointment s pname sp_opt pt phone = (NoDoctorsAvailable sp_opt, s)
      \<or> book_appointment s pname sp_opt pt phone = (NoMatchingAppointments, s)"
    by auto
  then show "snd (book_appointment s pname sp_opt pt phone) = s"
    and "fst (book_appointment s pname sp_opt pt phone)
          \<in> {NoDoctorsAvailable sp_opt, NoMatchingAppointments}"
    by auto
next
  assume "\<forall>d\<in>set (doctors s). \<not> candidate sp_opt d"
  then have "filter (candidate sp_opt) (doctors s) = []"
    by (simp add: filter_empty_conv)
  then show "book_appointment s pname sp_opt pt phone = (NoDoctorsAvailable sp_opt, s)"
    by (simp add: book_appointment_def)
next
  assume h: "(\<exists>d\<in>set (doctors s). candidate sp_opt d)
        \<and> (\<forall>d\<in>set (doctors s). candidate sp_opt d \<longrightarrow> available_slots d = [])"
  then have "filter (candidate sp_opt) (doctors s) \<noteq> []"
    by (simp add: filter_empty_conv)
  moreover have "book_loop (candidate sp_opt) pt (doctors s) = None"
    using h by (intro book_loop_None) blast
  ultimately show "book_appointment s pname sp_opt pt phone = (NoMatchingAppointments, s)"
    by (simp add: book_appointment_def)
qed


lemma cardiology_reserved_value:
  "cardiology_reserved =
     \<lparr>doctors =
        [\<lparr>doc_id = ''dr001'', name = ''Dr. Sarah Johnson'', specialty = ''Cardiology'',
          available_slots = [], consultation_fee = 150\<rparr>,
         \<lparr>doc_id = ''dr002'', name = ''Dr. Michael Chen'', specialty = ''Dermatology'',
          available_slots = [''2025-05-29 11:00'', ''2025-05-29 15:30'', ''2025-05-30 09:30''],
          consultation_fee = 120\<rparr>,
         \<lparr>doc_id = ''dr003'', name = ''Dr. Emily Rodriguez'', specialty = ''Pediatrics'',
          available_slots = [''2025-05-29 13:00'', ''2025-05-30 11:00'', ''2025-05-30 16:00''],
          consultation_fee = 100\<rparr>,
         \<lparr>doc_id = ''dr004'', name = ''Dr. James Wilson'', specialty = ''Orthopedics'',
          available_slots = [''2025-05-29 10:00'', ''2025-05-30 14:00'', ''2025-05-31 09:00''],
          consultation_fee = 180\<rparr>],
      appointments = [],
      appointment_counter = 1\<rparr>"
  by code_simp

lemma mornings_reserved_value:
  "mornings_reserved =
     \<lparr>doctors =
        [\<lparr>doc_id = ''dr001'', name = ''Dr. Sarah Johnson'', specialty = ''Cardiology'',
          available_slots = [''2025-05-29 14:00''], consultation_fee = 150\<rparr>,
         \<lparr>doc_id = ''dr002'', name = ''Dr. Michael Chen'', specialty = ''Dermatology'',
          available_slots = [''2025-05-29 11:00'', ''2025-05-29 15:30'', ''2025-05-30 09:30''],
          consultation_fee = 120\<rparr>,
         \<lparr>doc_id = ''dr003'', name = ''Dr. Emily Rodriguez'', specialty = ''Pediatrics'',
          available_slots = [''2025-05-29 13:00'', ''2025-05-30 11:00'', ''2025-05-30 16:00''],
          consultation_fee = 100\<rparr>,
         \<lparr>doc_id = ''dr004'', name = ''Dr. James Wilson'', specialty = ''Orthopedics'',
          available_slots = [''2025-05-29 10:00'', ''2025-05-30 14:00'', ''2025-05-31 09:00''],
          consultation_fee = 180\<rparr>],
      appointments = [],
      appointment_counter = 1\<rparr>"
  by code_simp

theorem book_appointment_specialty_witness:
  "book_appointment data_store ''John Smith'' (Some ''Cardiology'') None None
     = (AppointmentBooked (hd (appointments booked_once)), booked_once)
   \<and> sublist (lower ''Cardiology'') (lower (apt_specialty (hd (appointments booked_once))))
   \<and> book_appointment data_store ''Ann'' (Some ''neuro'') None None
       = (NoDoctorsAvailable (Some ''neuro''), data_store)
   \<and> book_appointment cardiology_reserved ''Ann'' (Some ''cardio'') (Some ''morning'') None
       = (NoMatchingAppointments, cardiology_reserved)
   \<and> snd (book_appointment data_store ''Ann'' (Some ''neuro'') None None) = data_store"
proof -
  have booked: "book_appointment data_store ''John Smith'' (Some ''Cardiology'') None None
     = (AppointmentBooked (hd (appointments booked_once)), booked_once)"
    by code_simp
  have sub: "sublist (lower ''Cardiology'') (lower (apt_specialty (hd (appointments booked_once))))"
    using book_appointment_specialty[of data_store "''John Smith''" "''Cardiology''" None None
        "hd (appointments booked_once)" booked_once] booked
    by blast
  have "\<forall>d\<in>set (doctors data_store). \<not> candidate (Some ''neuro'') d"
    by code_simp
  then have nodoc: "book_appointment data_store ''Ann'' (Some ''neuro'') None None
       = (NoDoctorsAvailable (Some ''neuro''), data_store)"
    using book_appointment_specialty[where s = data_store and sp_opt = "Some ''neuro''"]
    by blast
  have "(\<exists>d\<in>set (doctors cardiology_reserved). candidate (Some ''cardio'') d)
        \<and> (\<forall>d\<in>set (doctors cardiology_reserved).
              candidate (Some ''cardio'') d \<longrightarrow> available_slots d = [])"
    unfolding cardiology_reserved_value by code_simp
  then have noslot: "book_appointment cardiology_reserved ''Ann'' (Some ''cardio'') (Some ''morning'') None
       = (NoMatchingAppointments, cardiology_reserved)"
    using book_appointment_specialty[where s = cardiology_reserved and sp_opt = "Some ''cardio''"]
    by blast
  have "\<forall>b. fst (book_appointment data_store ''Ann'' (Some ''neuro'') None None)
      \<noteq> AppointmentBooked b"
    using nodoc by simp
  then have same: "snd (book_appointment data_store ''Ann'' (Some ''neuro'') None None) = data_store"
    using book_appointment_specialty[where s = data_store and sp_opt = "Some ''neuro''"
        and pname = "''Ann''" and pt = None and phone = None]
    by blast
  from booked sub nodoc noslot same show ?thesis by (intro conjI)
qed

text \<open>
  C5. The doctors are tried in the order of the store, restricted to those that pass the
  specialty filter, and the first of them with a slot left is the one booked: the slot is
  the first of the doctor's list that matches the time preference by the rule of the
  specification, and the doctor's first slot when none matches or no preference is given.
  So no later doctor is ever chosen, whatever the slots of the later doctors are. The
  slots are taken to be non-empty strings, as they are in every store that the tools
  produce from the seeded one.
\<close>

theorem book_appointment_first_doctor:
  "doctors s = pre @ d # post
   \<and> (\<forall>e\<in>set pre. \<not> (candidate sp_opt e \<and> available_slots e \<noteq> []))
   \<and> candidate sp_opt d \<and> available_slots d \<noteq> [] \<and> [] \<notin> set (available_slots d)
   \<longrightarrow> (\<exists>slot. spec_slot_choice pt (available_slots d) = Some slot
          \<and> book_appointment s pname sp_opt pt phone =
              (AppointmentBooked (new_appointment (appointment_counter s) d pname phone slot),
               s\<lparr>doctors := pre @ d\<lparr>available_slots := remove1 slot (available_slots d)\<rparr> # post,
                 appointments := appointments s
                   @ [new_appointment (appointment_counter s) d pname phone slot],
                 appointment_counter := appointment_counter s + 1\<rparr>))"
proof
  assume h: "doctors s = pre @ d # post
   \<and> (\<forall>e\<in>set pre. \<not> (candidate sp_opt e \<and> available_slots e \<noteq> []))
   \<and> candidate sp_opt d \<and> available_slots d \<noteq> [] \<and> [] \<notin> set (available_slots d)"
  then obtain first rest where slots: "available_slots d = first # rest"
    by (cases "available_slots d") auto
  have "spec_slot_choice pt (available_slots d) \<noteq> None"
    by (simp add: spec_slot_choice_def slots split: option.splits)
  then obtain slot where slot: "spec_slot_choice pt (available_slots d) = Some slot"
    by blast
  with h have sel: "select_slot pt (available_slots d) = Some slot"
    by (simp add: select_slot_spec)
  from h have skip: "\<forall>e\<in>set pre. \<not> (candidate sp_opt e \<and> available_slots e \<noteq> []
      \<and> select_slot pt (available_slots e) \<noteq> None)"
    by blast
  have loop: "book_loop (candidate sp_opt) pt (doctors s) =
      Some (d, slot, pre @ d\<lparr>available_slots := remove1 slot (available_slots d)\<rparr> # post)"
    using book_loop_first[OF skip _ _ sel, of post] h by simp
  have "filter (candidate sp_opt) (doctors s) \<noteq> []"
    using h by (simp add: filter_empty_conv)
  with loop have "book_appointment s pname sp_opt pt phone =
      (AppointmentBooked (new_appointment (appointment_counter s) d pname phone slot),
       s\<lparr>doctors := pre @ d\<lparr>available_slots := remove1 slot (available_slots d)\<rparr> # post,
         appointments := appointments s
           @ [new_appointment (appointment_counter s) d pname phone slot],
         appointment_counter := appointment_counter s + 1\<rparr>)"
    by (simp add: book_appointment_def Let_def)
  with slot show "\<exists>slot. spec_slot_choice pt (available_slots d) = Some slot
          \<and> book_appointment s pname sp_opt pt phone =
              (AppointmentBooked (new_appointment (appointment_counter s) d pname phone slot),
               s\<lparr>doctors := pre @ d\<lparr>available_slots := remove1 slot (available_slots d)\<rparr> # post,
                 appointments := appointments s
                   @ [new_appointment (appointment_counter s) d pname phone slot],
                 appointment_counter := appointment_counter s + 1\<rparr>)"
    by blast
qed

theorem book_appointment_first_doctor_witness:
  "spec_time_match (Some ''morning'') ''2025-05-29 11:00''
   \<and> ''2025-05-29 11:00'' \<in> set (available_slots (doctors mornings_reserved ! 1))
   \<and> spec_slot_choice (Some ''morning'') (available_slots (hd (doctors mornings_reserved)))
       = Some ''2025-05-29 14:00''
   \<and> fst (book_appointment mornings_reserved ''Ann'' None (Some ''morning'') None)
       = AppointmentBooked
           (new_appointment 1 (hd (doctors mornings_reserved)) ''Ann'' None ''2025-05-29 14:00'')"
proof -
  have later: "spec_time_match (Some ''morning'') ''2025-05-29 11:00''
      \<and> ''2025-05-29 11:00'' \<in> set (available_slots (doctors mornings_reserved ! 1))"
    unfolding mornings_reserved_value by code_simp
  have choice: "spec_slot_choice (Some ''morning'') (available_slots (hd (doctors mornings_reserved)))
       = Some ''2025-05-29 14:00''"
    unfolding mornings_reserved_value by code_simp
  have hyp: "doctors mornings_reserved = [] @ hd (doctors mornings_reserved) # tl (doctors mornings_reserved)
      \<and> (\<forall>e\<in>set []. \<not> (candidate None e \<and> available_slots e \<noteq> []))
      \<and> candidate None (hd (doctors mornings_reserved))
      \<and> available_slots (hd (doctors mornings_reserved)) \<noteq> []
      \<and> [] \<notin> set (available_slots (hd (doctors mornings_reserved)))"
    by (simp add: mornings_reserved_value candidate_def)
  have "fst (book_appointment mornings_reserved ''Ann'' None (Some ''morning'') None)
       = AppointmentBooked
           (new_appointment (appointment_counter mornings_reserved)
              (hd (doctors mornings_reserved)) ''Ann'' None ''2025-05-29 14:00'')"
    using book_appointment_first_doctor[where s = mornings_reserved and pre = "[]"
        and d = "hd (doctors mornings_reserved)" and post = "tl (doctors mornings_reserved)"
        and sp_opt = None and pt = "Some ''morning''" and pname = "''Ann''" and phone = None]
      hyp choice
    by auto
  moreover have "appointment_counter mornings_reserved = 1"
    by (simp add: mornings_reserved_value)
  ultimately show ?thesis using later choice by simp
qed

section \<open>Appointment identifiers\<close>

lemma decimal_value_snoc:
  "decimal_value (s @ [c]) = 10 * decimal_value s + ((of_char c :: nat) - 48)"
  by (simp add: decimal_value_def)

lemma decimal_value_digits_nat: "decimal_value (digits_nat n) = n"
proof (induction n rule: digits_nat.induct)
  case (1 n)
  show ?case
  proof (cases "n < 10")
    case True
    then have "digits_nat n = [char_of (48 + n)]" by (simp add: digits_nat.simps)
    moreover have "(of_char (char_of (48 + n)) :: nat) = 48 + n" using True by simp
    ultimately show ?thesis by (simp add: decimal_value_def)
  next
    case False
    then have eq: "digits_nat n = digits_nat (n div 10) @ [char_of (48 + n mod 10)]"
      by (subst digits_nat.simps) simp
    have "(of_char (char_of (48 + n mod 10)) :: nat) = 48 + n mod 10" by simp
    with eq 1[OF False] show ?thesis by (simp add: decimal_value_snoc)
  qed
qed

lemma decimal_value_zeros: "foldl (\<lambda>acc c. 10 * acc + ((of_char c :: nat) - 48)) 0 (replicate k (CHR ''0'')) = 0"
  by (induction k) simp_all

lemma decimal_value_zero_pad: "decimal_value (zero_pad w s) = decimal_value s"
  by (simp add: zero_pad_def decimal_value_def decimal_value_zeros)

lemma decimal_value_appointment_id:
  "0 \<le> n \<Longrightarrow> decimal_value (drop 3 (appointment_id n)) = nat n"
  by (simp add: appointment_id_def format_04d_def decimal_value_zero_pad decimal_value_digits_nat)

lemma appointment_id_inj:
  "0 \<le> m \<Longrightarrow> 0 \<le> n \<Longrightarrow> appointment_id m = appointment_id n \<Longrightarrow> m = n"
  using decimal_value_appointment_id[of m] decimal_value_appointment_id[of n] by simp

lemma distinct_appointment_ids:
  "0 \<le> lo \<Longrightarrow> distinct (map appointment_id [lo..hi])"
proof -
  assume "0 \<le> lo"
  then have "inj_on appointment_id (set [lo..hi])"
    by (intro inj_onI appointment_id_inj) auto
  then show ?thesis by (simp add: distinct_map)
qed

lemma digits_nat_digits: "list_all is_digit (digits_nat n)"
proof (induction n rule: digits_nat.induct)
  case (1 n)
  show ?case
  proof (cases "n < 10")
    case True
    then have "digits_nat n = [char_of (48 + n)]" by (simp add: digits_nat.simps)
    moreover have "(of_char (char_of (48 + n)) :: nat) = 48 + n" using True by simp
    ultimately show ?thesis using True by (simp add: is_digit_def)
  next
    case False
    then have eq: "digits_nat n = digits_nat (n div 10) @ [char_of (48 + n mod 10)]"
      by (subst digits_nat.simps) simp
    have "(of_char (char_of (48 + n mod 10)) :: nat) = 48 + n mod 10" by simp
    with eq 1[OF False] show ?thesis by (simp add: is_digit_def)
  qed
qed

lemma digits_nat_length: "n < 10 ^ k \<Longrightarrow> 0 < k \<Longrightarrow> length (digits_nat n) \<le> k"
proof (induction n arbitrary: k rule: digits_nat.induct)
  case (1 n)
  show ?case
  proof (cases "n < 10")
    case True
    then have "digits_nat n = [char_of (48 + n)]" by (simp add: digits_nat.simps)
    with 1(3) show ?thesis by simp
  next
    case False
    then have eq: "digits_nat n = digits_nat (n div 10) @ [char_of (48 + n mod 10)]"
      by (subst digits_nat.simps) simp
    from 1(3) obtain j where k: "k = Suc j" by (cases k) auto
    with 1(2) False have "j \<noteq> 0" by (cases j) auto
    moreover have "n div 10 < 10 ^ j" using 1(2) k by (simp add: less_mult_imp_div_less mult.commute)
    ultimately have "length (digits_nat (n div 10)) \<le> j"
      using 1(1)[OF False, of j] by simp
    with eq k show ?thesis by simp
  qed
qed

lemma appointment_id_format:
  "0 \<le> n \<Longrightarrow>
   \<exists>ds. appointment_id n = ''APT'' @ ds \<and> 4 \<le> length ds \<and> list_all is_digit ds
     \<and> decimal_value ds = nat n \<and> (n \<le> 9999 \<longrightarrow> length ds = 4)"
proof -
  assume n: "0 \<le> n"
  let ?ds = "zero_pad 4 (digits_nat (nat n))"
  have id: "appointment_id n = ''APT'' @ ?ds"
    using n by (simp add: appointment_id_def format_04d_def)
  have len: "4 \<le> length ?ds" by (simp add: zero_pad_def)
  have "is_digit (CHR ''0'')" by (simp add: is_digit_def)
  then have "list_all is_digit (replicate (4 - length (digits_nat (nat n))) (CHR ''0''))"
    by (simp add: list_all_iff)
  with digits_nat_digits[of "nat n"] have dig: "list_all is_digit ?ds"
    by (simp add: zero_pad_def)
  have val: "decimal_value ?ds = nat n"
    by (simp add: decimal_value_zero_pad decimal_value_digits_nat)
  have four: "length ?ds = 4" if "n \<le> 9999"
  proof -
    have "nat n < 10 ^ 4" using n that by simp
    then have "length (digits_nat (nat n)) \<le> 4" by (rule digits_nat_length) simp
    then show ?thesis by (simp add: zero_pad_def)
  qed
  from id len dig val four show ?thesis by blast
qed

lemma ids_increasing:
  "sorted_wrt (<) (map (\<lambda>i. decimal_value (drop 3 i)) (map appointment_id [1..m]))"
proof -
  have "sorted_wrt (<) [1..m]"
    by (simp add: strict_sorted_iff)
  then have "sorted_wrt (\<lambda>x y. decimal_value (drop 3 (appointment_id x))
      < decimal_value (drop 3 (appointment_id y))) [1..m]"
  proof (rule sorted_wrt_mono_rel[rotated])
    fix x y :: int
    assume "x \<in> set [1..m]" "y \<in> set [1..m]" "x < y"
    then show "decimal_value (drop 3 (appointment_id x)) < decimal_value (drop 3 (appointment_id y))"
      by (simp add: decimal_value_appointment_id)
  qed
  then show ?thesis by (simp add: sorted_wrt_map)
qed

lemma decimal_fold_shift:
  "foldl (\<lambda>acc c. 10 * acc + ((of_char c :: nat) - 48)) a cs
     = a * 10 ^ length cs + foldl (\<lambda>acc c. 10 * acc + ((of_char c :: nat) - 48)) 0 cs"
proof (induction cs arbitrary: a)
  case Nil
  then show ?case by simp
next
  case (Cons c cs)
  have "foldl (\<lambda>acc c. 10 * acc + ((of_char c :: nat) - 48)) a (c # cs)
      = (10 * a + ((of_char c :: nat) - 48)) * 10 ^ length cs
        + foldl (\<lambda>acc c. 10 * acc + ((of_char c :: nat) - 48)) 0 cs"
    using Cons.IH[of "10 * a + ((of_char c :: nat) - 48)"] by simp
  moreover have "foldl (\<lambda>acc c. 10 * acc + ((of_char c :: nat) - 48)) 0 (c # cs)
      = ((of_char c :: nat) - 48) * 10 ^ length cs
        + foldl (\<lambda>acc c. 10 * acc + ((of_char c :: nat) - 48)) 0 cs"
    using Cons.IH[of "(of_char c :: nat) - 48"] by simp
  ultimately show ?case by (simp add: algebra_simps)
qed

lemma decimal_value_Cons:
  "decimal_value (c # cs) = ((of_char c :: nat) - 48) * 10 ^ length cs + decimal_value cs"
  using decimal_fold_shift[of "(of_char c :: nat) - 48" cs] by (simp add: decimal_value_def)

lemma decimal_value_bound:
  "list_all is_digit cs \<Longrightarrow> decimal_value cs < 10 ^ length cs"
proof (induction cs)
  case Nil
  then show ?case by (simp add: decimal_value_def)
next
  case (Cons c cs)
  from Cons.prems have d: "is_digit c" "list_all is_digit cs" by simp_all
  from d(2) have ih: "decimal_value cs < 10 ^ length cs" by (rule Cons.IH)
  from d(1) have "(of_char c :: nat) \<le> 57" by (simp add: is_digit_def Let_def)
  then have "(of_char c :: nat) - 48 \<le> 9" by linarith
  then have m: "((of_char c :: nat) - 48) * 10 ^ length cs \<le> 9 * 10 ^ length cs"
    by (rule mult_le_mono1)
  have "decimal_value (c # cs)
      = ((of_char c :: nat) - 48) * 10 ^ length cs + decimal_value cs"
    by (rule decimal_value_Cons)
  moreover have "(10::nat) ^ length (c # cs) = 10 * 10 ^ length cs" by simp
  ultimately show ?case using m ih by linarith
qed

lemma digit_strings_ordered:
  "length xs = length ys \<Longrightarrow> list_all is_digit xs \<Longrightarrow> list_all is_digit ys
   \<Longrightarrow> decimal_value xs < decimal_value ys \<Longrightarrow> xs < ys"
proof (induction xs ys rule: list_induct2)
  case Nil
  then show ?case by (simp add: decimal_value_def)
next
  case (Cons x xs y ys)
  let ?vx = "(of_char x :: nat) - 48" and ?vy = "(of_char y :: nat) - 48"
  let ?p = "(10::nat) ^ length xs"
  from Cons.prems have dx: "is_digit x" "list_all is_digit xs" and dy: "is_digit y" "list_all is_digit ys"
    by simp_all
  have bx: "decimal_value xs < ?p" using dx(2) by (rule decimal_value_bound)
  have "decimal_value ys < 10 ^ length ys" using dy(2) by (rule decimal_value_bound)
  then have by': "decimal_value ys < ?p" using Cons.hyps by simp
  have lt: "?vx * ?p + decimal_value xs < ?vy * ?p + decimal_value ys"
    using Cons.prems(3) Cons.hyps by (simp add: decimal_value_Cons)
  have "48 \<le> (of_char x :: nat)" "48 \<le> (of_char y :: nat)"
    using dx(1) dy(1) by (simp_all add: is_digit_def Let_def)
  then have ox: "(of_char x :: nat) = ?vx + 48" and oy: "(of_char y :: nat) = ?vy + 48"
    by linarith+
  consider (less) "?vx < ?vy" | (same) "?vx = ?vy" | (more) "?vy < ?vx" by linarith
  then show ?case
  proof cases
    case less
    then have "(of_char x :: nat) < of_char y" using ox oy by linarith
    then have "x < y" by (simp add: less_char_def)
    then show ?thesis by simp
  next
    case same
    then have "(of_char x :: nat) = of_char y" using ox oy by simp
    then have xy: "x = y" by simp
    from same lt have "decimal_value xs < decimal_value ys" by simp
    then have "xs < ys" using Cons.IH dx(2) dy(2) by blast
    with xy show ?thesis by simp
  next
    case more
    then have "Suc ?vy \<le> ?vx" by simp
    then have "Suc ?vy * ?p \<le> ?vx * ?p" by (rule mult_le_mono1)
    then have "?vy * ?p + ?p \<le> ?vx * ?p" by simp
    with by' lt show ?thesis by linarith
  qed
qed

lemma appointment_id_less:
  assumes "0 \<le> m" "m < n" "n \<le> 9999"
  shows "appointment_id m < appointment_id n"
proof -
  from appointment_id_format[of m] assms obtain a where
    a: "appointment_id m = ''APT'' @ a" "list_all is_digit a" "decimal_value a = nat m" "length a = 4"
    by auto
  from appointment_id_format[of n] assms obtain b where
    b: "appointment_id n = ''APT'' @ b" "list_all is_digit b" "decimal_value b = nat n" "length b = 4"
    by auto
  have "decimal_value a < decimal_value b" using a(3) b(3) assms by simp
  then have "a < b" using digit_strings_ordered[of a b] a(2,4) b(2,4) by simp
  then show ?thesis unfolding a(1) b(1) by simp
qed

lemma ids_increasing_as_strings:
  "m \<le> 9999 \<Longrightarrow> sorted_wrt (<) (map appointment_id [1..m])"
proof -
  assume m: "m \<le> 9999"
  have "sorted_wrt (<) [1..m]"
    by (simp add: strict_sorted_iff)
  then have "sorted_wrt (\<lambda>x y. appointment_id x < appointment_id y) [1..m]"
  proof (rule sorted_wrt_mono_rel[rotated])
    fix x y :: int
    assume "x \<in> set [1..m]" "y \<in> set [1..m]" "x < y"
    then show "appointment_id x < appointment_id y"
      using m by (intro appointment_id_less) auto
  qed
  then show ?thesis by (simp add: sorted_wrt_map)
qed

section \<open>The ledger over a run of tool calls\<close>

lemma reserve_slot_loop_reply:
  "fst (reserve_slot_loop ds did slot) \<noteq> AppointmentBooked apt"
  by (induction ds) (auto split: prod.splits)

lemma reserve_slot_ledger:
  "reserve_slot s did slot = (r, s') \<Longrightarrow>
   r \<noteq> AppointmentBooked apt \<and> appointments s' = appointments s
   \<and> appointment_counter s' = appointment_counter s"
  using reserve_slot_loop_reply[of "doctors s" did slot apt]
  by (auto simp: reserve_slot_def split: prod.splits)

lemma cancel_loop_ledger:
  "cancel_loop as ds aid = (r, as', ds') \<Longrightarrow>
   r \<noteq> AppointmentBooked apt \<and> map apt_id as' = map apt_id as"
  by (induction as arbitrary: as' ds' r) (auto split: if_splits prod.splits)

lemma cancel_appointment_ledger:
  "cancel_appointment s aid = (r, s') \<Longrightarrow>
   r \<noteq> AppointmentBooked apt \<and> map apt_id (appointments s') = map apt_id (appointments s)
   \<and> appointment_counter s' = appointment_counter s"
  using cancel_loop_ledger[of "appointments s" "doctors s" aid]
  by (auto simp: cancel_appointment_def split: prod.splits)

lemma list_doctors_reply: "list_doctors s sp_opt \<noteq> AppointmentBooked apt"
  by (simp add: list_doctors_def Let_def)

lemma get_doctor_slots_loop_reply: "get_doctor_slots_loop ds did \<noteq> AppointmentBooked apt"
  by (induction ds) auto

lemma list_appointments_reply: "list_appointments str_lower s pn_opt \<noteq> AppointmentBooked apt"
  by (simp add: list_appointments_def Let_def)

lemma book_appointment_ledger:
  "book_appointment s pname sp_opt pt phone = (r, s') \<Longrightarrow>
   (\<exists>apt. r = AppointmentBooked apt \<and> apt_id apt = appointment_id (appointment_counter s)
      \<and> appointments s' = appointments s @ [apt]
      \<and> appointment_counter s' = appointment_counter s + 1)
   \<or> ((\<forall>apt. r \<noteq> AppointmentBooked apt) \<and> s' = s)"
  using book_appointment_cases[of s pname sp_opt pt phone]
  by (auto simp: new_appointment_def)

lemma booked_ids_other: "(\<And>apt. r \<noteq> AppointmentBooked apt) \<Longrightarrow> booked_ids [r] = []"
  by (cases r) auto

lemma call_tool_ledger:
  "call_tool s c = (r, s') \<Longrightarrow>
   (booked_ids [r] = [appointment_id (appointment_counter s)]
      \<and> map apt_id (appointments s') = map apt_id (appointments s) @ booked_ids [r]
      \<and> appointment_counter s' = appointment_counter s + 1)
   \<or> (booked_ids [r] = []
      \<and> map apt_id (appointments s') = map apt_id (appointments s)
      \<and> appointment_counter s' = appointment_counter s)"
proof (cases c)
  case (ListDoctors sp_opt)
  assume "call_tool s c = (r, s')"
  with ListDoctors have "r = list_doctors s sp_opt" "s' = s" by auto
  then show ?thesis using booked_ids_other[of r] list_doctors_reply[of s sp_opt] by simp
next
  case (GetDoctorSlots did)
  assume "call_tool s c = (r, s')"
  with GetDoctorSlots have "r = get_doctor_slots_loop (doctors s) did" "s' = s"
    by (auto simp: get_doctor_slots_def)
  then show ?thesis
    using booked_ids_other[of r] get_doctor_slots_loop_reply[of "doctors s" did] by simp
next
  case (ReserveSlot did slot)
  assume "call_tool s c = (r, s')"
  with ReserveSlot have "reserve_slot s did slot = (r, s')" by simp
  then show ?thesis
    using booked_ids_other[of r] reserve_slot_ledger[of s did slot r s'] by simp
next
  case (BookAppointment pname sp_opt pt phone)
  assume "call_tool s c = (r, s')"
  with BookAppointment have "book_appointment s pname sp_opt pt phone = (r, s')" by simp
  from book_appointment_ledger[OF this] show ?thesis
  proof
    assume "\<exists>apt. r = AppointmentBooked apt \<and> apt_id apt = appointment_id (appointment_counter s)
      \<and> appointments s' = appointments s @ [apt]
      \<and> appointment_counter s' = appointment_counter s + 1"
    then show ?thesis by auto
  next
    assume "(\<forall>apt. r \<noteq> AppointmentBooked apt) \<and> s' = s"
    then show ?thesis using booked_ids_other[of r] by simp
  qed
next
  case (ListAppointments pn_opt)
  assume "call_tool s c = (r, s')"
  with ListAppointments have "r = list_appointments lower s pn_opt" "s' = s" by auto
  then show ?thesis
    using booked_ids_other[of r] list_appointments_reply[of lower s pn_opt] by simp
next
  case (CancelAppointment aid)
  assume "call_tool s c = (r, s')"
  with CancelAppointment have "cancel_appointment s aid = (r, s')" by simp
  then show ?thesis
    using booked_ids_other[of r] cancel_appointment_ledger[of s aid r s'] by simp
qed


lemma booked_ids_Cons: "booked_ids (r # rs) = booked_ids [r] @ booked_ids rs"
  by (cases r) simp_all

lemma call_tools_ledger:
  "call_tools s cs = (rs, s') \<Longrightarrow>
   appointment_counter s' = appointment_counter s + int (length (booked_ids rs))
   \<and> map apt_id (appointments s') = map apt_id (appointments s) @ booked_ids rs
   \<and> booked_ids rs = map appointment_id [appointment_counter s..appointment_counter s' - 1]"
proof (induction cs arbitrary: s rs s')
  case Nil
  then show ?case by simp
next
  case (Cons c cs)
  obtain r s1 where step: "call_tool s c = (r, s1)" by (cases "call_tool s c")
  obtain rs1 s2 where rest: "call_tools s1 cs = (rs1, s2)" by (cases "call_tools s1 cs")
  from Cons.prems step rest have rs: "rs = r # rs1" and s': "s' = s2" by simp_all
  from Cons.IH[OF rest]
  have ih1: "appointment_counter s2 = appointment_counter s1 + int (length (booked_ids rs1))"
    and ih2: "map apt_id (appointments s2) = map apt_id (appointments s1) @ booked_ids rs1"
    and ih3: "booked_ids rs1 = map appointment_id [appointment_counter s1..appointment_counter s2 - 1]"
    by blast+
  have split: "booked_ids rs = booked_ids [r] @ booked_ids rs1"
    unfolding rs by (rule booked_ids_Cons)
  from call_tool_ledger[OF step] show ?case
  proof
    assume b: "booked_ids [r] = [appointment_id (appointment_counter s)]
      \<and> map apt_id (appointments s1) = map apt_id (appointments s) @ booked_ids [r]
      \<and> appointment_counter s1 = appointment_counter s + 1"
    have le: "appointment_counter s \<le> appointment_counter s2 - 1"
      using b ih1 by simp
    have "[appointment_counter s..appointment_counter s2 - 1]
        = appointment_counter s # [appointment_counter s + 1..appointment_counter s2 - 1]"
      using le by (rule upto_rec1)
    then have up: "map appointment_id [appointment_counter s..appointment_counter s2 - 1]
        = appointment_id (appointment_counter s) # booked_ids rs1"
      using b ih3 by simp
    have "appointment_counter s' = appointment_counter s + int (length (booked_ids rs))"
      using b ih1 split s' by simp
    moreover have "map apt_id (appointments s') = map apt_id (appointments s) @ booked_ids rs"
      using b ih2 split s' by simp
    moreover have "booked_ids rs = map appointment_id [appointment_counter s..appointment_counter s' - 1]"
      using b split up s' by simp
    ultimately show ?thesis by (intro conjI)
  next
    assume b: "booked_ids [r] = []
      \<and> map apt_id (appointments s1) = map apt_id (appointments s)
      \<and> appointment_counter s1 = appointment_counter s"
    have "appointment_counter s' = appointment_counter s + int (length (booked_ids rs))"
      using b ih1 split s' by simp
    moreover have "map apt_id (appointments s') = map apt_id (appointments s) @ booked_ids rs"
      using b ih2 split s' by simp
    moreover have "booked_ids rs = map appointment_id [appointment_counter s..appointment_counter s' - 1]"
      using b split ih3 s' by simp
    ultimately show ?thesis by (intro conjI)
  qed
qed


lemma appointment_id_1: "appointment_id 1 = ''APT0001''"
  by code_simp

text \<open>
  C1. As the code has it: the counter starts at 1 and goes up by one with each successful
  booking and with nothing else: after any run of tool calls on the seeded store it is one
  more than the number of bookings that succeeded. The k-th successful booking gets the
  identifier that the format \<open>APT\<close>, \<open>:04d\<close> gives for k, so the identifiers booked are
  those of 1, 2, \<dots>, N in this order, they are the identifiers of the ledger, and no two of
  them are equal, whatever was cancelled in between. An identifier is \<open>APT\<close> and the
  decimal digits of the number, padded with zeros to at least four digits: the identifier
  of 1 is \<open>APT0001\<close>, up to 9999 the digits are exactly four, and a larger number keeps
  all its digits. The numbers of the identifiers go strictly up along the ledger; the
  identifiers themselves go strictly up as strings as long as at most 9999 were booked.
\<close>

theorem appointment_ids_sequential:
  "call_tools data_store cs = (rs, s') \<longrightarrow>
     appointment_counter data_store = 1
   \<and> appointment_counter s' = 1 + int (length (booked_ids rs))
   \<and> booked_ids rs = map appointment_id [1..int (length (booked_ids rs))]
   \<and> map apt_id (appointments s') = booked_ids rs
   \<and> distinct (map apt_id (appointments s'))
   \<and> sorted_wrt (<) (map (\<lambda>i. decimal_value (drop 3 i)) (map apt_id (appointments s')))
   \<and> (length (booked_ids rs) \<le> 9999 \<longrightarrow> sorted_wrt (<) (map apt_id (appointments s')))
   \<and> appointment_id 1 = ''APT0001''
   \<and> (\<forall>n\<ge>0. \<exists>ds. appointment_id n = ''APT'' @ ds \<and> 4 \<le> length ds \<and> list_all is_digit ds
          \<and> decimal_value ds = nat n \<and> (n \<le> 9999 \<longrightarrow> length ds = 4))"
proof
  assume run: "call_tools data_store cs = (rs, s')"
  have c0: "appointment_counter data_store = 1"
    by (simp add: data_store_def)
  have a0: "appointments data_store = []"
    by (simp add: data_store_def)
  note led = call_tools_ledger[OF run]
  have cnt: "appointment_counter s' = 1 + int (length (booked_ids rs))"
    using led[THEN conjunct1] c0 by simp
  have ledger: "map apt_id (appointments s') = booked_ids rs"
    using led[THEN conjunct2, THEN conjunct1] a0 by simp
  have "booked_ids rs = map appointment_id [appointment_counter data_store..appointment_counter s' - 1]"
    using led[THEN conjunct2, THEN conjunct2] .
  moreover have "appointment_counter s' - 1 = int (length (booked_ids rs))"
    using cnt by arith
  ultimately have ids: "booked_ids rs = map appointment_id [1..int (length (booked_ids rs))]"
    using c0 by (simp only:)
  have "distinct (map appointment_id [1..int (length (booked_ids rs))])"
    by (rule distinct_appointment_ids) simp
  then have "distinct (booked_ids rs)"
    using ids by simp
  then have dist: "distinct (map apt_id (appointments s'))"
    unfolding ledger .
  have "sorted_wrt (<) (map (\<lambda>i. decimal_value (drop 3 i)) (booked_ids rs))"
    using ids_increasing[of "int (length (booked_ids rs))"] ids by simp
  then have incr: "sorted_wrt (<) (map (\<lambda>i. decimal_value (drop 3 i)) (map apt_id (appointments s')))"
    unfolding ledger .
  have four: "\<forall>n\<ge>0. \<exists>ds. appointment_id n = ''APT'' @ ds \<and> 4 \<le> length ds \<and> list_all is_digit ds
          \<and> decimal_value ds = nat n \<and> (n \<le> 9999 \<longrightarrow> length ds = 4)"
    using appointment_id_format by blast
  have strs: "length (booked_ids rs) \<le> 9999 \<longrightarrow> sorted_wrt (<) (map apt_id (appointments s'))"
  proof
    assume "length (booked_ids rs) \<le> 9999"
    then have "sorted_wrt (<) (map appointment_id [1..int (length (booked_ids rs))])"
      by (intro ids_increasing_as_strings) simp
    then have "sorted_wrt (<) (booked_ids rs)" using ids by simp
    then show "sorted_wrt (<) (map apt_id (appointments s'))" unfolding ledger .
  qed
  from c0 cnt ids ledger dist incr strs appointment_id_1 four
  show "appointment_counter data_store = 1
   \<and> appointment_counter s' = 1 + int (length (booked_ids rs))
   \<and> booked_ids rs = map appointment_id [1..int (length (booked_ids rs))]
   \<and> map apt_id (appointments s') = booked_ids rs
   \<and> distinct (map apt_id (appointments s'))
   \<and> sorted_wrt (<) (map (\<lambda>i. decimal_value (drop 3 i)) (map apt_id (appointments s')))
   \<and> (length (booked_ids rs) \<le> 9999 \<longrightarrow> sorted_wrt (<) (map apt_id (appointments s')))
   \<and> appointment_id 1 = ''APT0001''
   \<and> (\<forall>n\<ge>0. \<exists>ds. appointment_id n = ''APT'' @ ds \<and> 4 \<le> length ds \<and> list_all is_digit ds
          \<and> decimal_value ds = nat n \<and> (n \<le> 9999 \<longrightarrow> length ds = 4))"
    by (intro conjI)
qed


theorem appointment_ids_sequential_witness:
  "booked_ids (fst (call_tools data_store book_cancel_book)) = [''APT0001'', ''APT0002'']
   \<and> map status (appointments (snd (call_tools data_store book_cancel_book)))
       = [CANCELLED, SCHEDULED]
   \<and> map apt_id (appointments (snd (call_tools data_store book_cancel_book)))
       = [''APT0001'', ''APT0002'']
   \<and> appointment_counter (snd (call_tools data_store book_cancel_book)) = 3"
proof -
  let ?run = "call_tools data_store book_cancel_book"
  have ids: "booked_ids (fst ?run) = [''APT0001'', ''APT0002'']"
    by code_simp
  have st: "map status (appointments (snd ?run)) = [CANCELLED, SCHEDULED]"
    by code_simp
  have "?run = (fst ?run, snd ?run)" by simp
  with appointment_ids_sequential[of book_cancel_book "fst ?run" "snd ?run"]
  have "appointment_counter (snd ?run) = 1 + int (length (booked_ids (fst ?run)))"
    and "map apt_id (appointments (snd ?run)) = booked_ids (fst ?run)"
    by blast+
  with ids st show ?thesis by simp
qed

section \<open>Identifiers beyond 9999\<close>

lemma seed_candidates: "filter (candidate None) (doctors data_store) \<noteq> []"
  by code_simp

lemma seed_book_loop:
  "book_loop (candidate None) None (doctors data_store)
     = Some (hd (doctors data_store), ''2025-05-29 09:00'', doctors booked_once)"
  by code_simp

lemma seed_first_doctor: "doc_id (hd (doctors data_store)) = ''dr001''"
  by code_simp

lemma seed_release:
  "release_slot (doctors booked_once) ''dr001'' ''2025-05-29 09:00'' = doctors data_store"
  by code_simp

lemma snd_call_tools_Cons:
  "snd (call_tools s (c # cs)) = snd (call_tools (snd (call_tool s c)) cs)"
  by (simp split: prod.splits)

lemma cycle_step:
  assumes ds: "doctors s = doctors data_store"
    and ids: "map apt_id (appointments s) = map appointment_id [1..c - 1]"
    and cnt: "appointment_counter s = c" and c: "1 \<le> c"
  defines "s2 \<equiv> snd (cancel_appointment
      (snd (book_appointment s ''Ann Lee'' None None None)) (appointment_id c))"
  shows "doctors s2 = doctors data_store"
    and "map apt_id (appointments s2) = map appointment_id [1..c]"
    and "appointment_counter s2 = c + 1"
proof -
  let ?a = "new_appointment c (hd (doctors data_store)) ''Ann Lee'' None ''2025-05-29 09:00''"
  let ?s1 = "s\<lparr>doctors := doctors booked_once, appointments := appointments s @ [?a],
               appointment_counter := c + 1\<rparr>"
  have book: "book_appointment s ''Ann Lee'' None None None = (AppointmentBooked ?a, ?s1)"
    using seed_candidates seed_book_loop
    by (simp add: book_appointment_def ds cnt Let_def)
  have a: "apt_id ?a = appointment_id c" "status ?a \<noteq> CANCELLED"
      "doctor_id ?a = ''dr001''" "appointment_time ?a = ''2025-05-29 09:00''"
    by (simp_all add: new_appointment_def seed_first_doctor)
  have earlier: "\<forall>b\<in>set (appointments s). apt_id b \<noteq> appointment_id c"
  proof
    fix b
    assume "b \<in> set (appointments s)"
    then have "apt_id b \<in> set (map apt_id (appointments s))" by simp
    then obtain k where k: "apt_id b = appointment_id k" "1 \<le> k" "k \<le> c - 1"
      unfolding ids by auto
    show "apt_id b \<noteq> appointment_id c"
    proof
      assume "apt_id b = appointment_id c"
      then have "appointment_id k = appointment_id c" using k(1) by simp
      then have "k = c" using k(2) c by (intro appointment_id_inj) simp_all
      with k(3) show False by simp
    qed
  qed
  have "cancel_loop (appointments s @ ?a # []) (doctors booked_once) (appointment_id c)
      = (CancelledSuccessfully (appointment_id c),
         appointments s @ ?a\<lparr>status := CANCELLED\<rparr> # [],
         release_slot (doctors booked_once) (doctor_id ?a) (appointment_time ?a))"
    using cancel_loop_first[OF earlier a(1), of "[]" "doctors booked_once"] a(2) by simp
  then have loop: "cancel_loop (appointments ?s1) (doctors ?s1) (appointment_id c)
      = (CancelledSuccessfully (appointment_id c),
         appointments s @ [?a\<lparr>status := CANCELLED\<rparr>], doctors data_store)"
    by (simp add: a(3,4) seed_release)
  have s2: "s2 = ?s1\<lparr>doctors := doctors data_store,
      appointments := appointments s @ [?a\<lparr>status := CANCELLED\<rparr>]\<rparr>"
    unfolding s2_def book snd_conv cancel_appointment_def loop by simp
  show "doctors s2 = doctors data_store" by (simp add: s2)
  show "appointment_counter s2 = c + 1" by (simp add: s2)
  have "[1..c] = [1..c - 1] @ [c]" using c by (rule upto_rec2)
  then show "map apt_id (appointments s2) = map appointment_id [1..c]"
    by (simp add: s2 ids a(1))
qed

lemma cycles_run:
  "doctors s = doctors data_store
   \<Longrightarrow> map apt_id (appointments s) = map appointment_id [1..c - 1]
   \<Longrightarrow> appointment_counter s = c \<Longrightarrow> 1 \<le> c
   \<Longrightarrow> map apt_id (appointments (snd (call_tools s (book_cancel_cycles n c))))
         = map appointment_id [1..c + int n - 1]"
proof (induction n arbitrary: s c)
  case 0
  then show ?case by simp
next
  case (Suc n)
  let ?s2 = "snd (cancel_appointment
      (snd (book_appointment s ''Ann Lee'' None None None)) (appointment_id c))"
  note step = cycle_step[OF Suc.prems]
  have "map apt_id (appointments (snd (call_tools ?s2 (book_cancel_cycles n (c + 1)))))
      = map appointment_id [1..(c + 1) + int n - 1]"
    using step Suc.prems(4) by (intro Suc.IH) simp_all
  moreover have "snd (call_tools s (book_cancel_cycles (Suc n) c))
      = snd (call_tools ?s2 (book_cancel_cycles n (c + 1)))"
    by (simp only: book_cancel_cycles.simps snd_call_tools_Cons call_tool.simps)
  moreover have "(c + 1) + int n - 1 = c + int (Suc n) - 1" by simp
  ultimately show ?case by (simp only:)
qed

lemma upto_tail: "drop 9998 [1..10000::int] = [9999, 10000]"
proof -
  have "[1..10000::int] = [1..9998] @ [9998 + 1..10000]"
    by (rule upto_split2) simp_all
  moreover have "length [1..9998::int] = 9998" by simp
  ultimately have "drop 9998 [1..10000::int] = [9998 + 1..10000]"
    by (metis append_eq_conv_conj)
  moreover have "[9998 + 1..10000::int] = [9999, 10000]" by code_simp
  ultimately show ?thesis by (simp only:)
qed

lemma digit_chars:
  "char_of (48::nat) = CHR ''0''" "char_of (49::nat) = CHR ''1''" "char_of (57::nat) = CHR ''9''"
  by code_simp+

lemma appointment_id_9999: "appointment_id 9999 = ''APT9999''"
  by (simp add: appointment_id_def format_04d_def zero_pad_def digits_nat.simps digit_chars)

lemma appointment_id_10000: "appointment_id 10000 = ''APT10000''"
  by (simp add: appointment_id_def format_04d_def zero_pad_def digits_nat.simps digit_chars)

text \<open>
  The ten-thousandth booking, reached by booking and cancelling in turn, gets an
  identifier of five digits, which is below its predecessor as a string.
\<close>

theorem ten_thousandth_appointment_id:
  "map apt_id (drop 9998 (appointments (snd (call_tools data_store (book_cancel_cycles 10000 1)))))
     = [''APT9999'', ''APT10000'']
   \<and> \<not> ''APT9999'' < ''APT10000''"
proof -
  define s where "s = snd (call_tools data_store (book_cancel_cycles 10000 1))"
  have "map apt_id (appointments (snd (call_tools data_store (book_cancel_cycles 10000 1))))
      = map appointment_id [1..1 + int 10000 - 1]"
  proof (rule cycles_run)
    show "doctors data_store = doctors data_store" by (rule refl)
    show "map apt_id (appointments data_store) = map appointment_id [1..1 - 1]"
      by (simp add: data_store_def)
    show "appointment_counter data_store = 1" by (simp add: data_store_def)
    show "(1::int) \<le> 1" by simp
  qed
  then have "map apt_id (appointments s) = map appointment_id [1..1 + int 10000 - 1]"
    unfolding s_def .
  moreover have "(1::int) + int 10000 - 1 = 10000" by simp
  ultimately have all: "map apt_id (appointments s) = map appointment_id [1..10000]"
    by (simp only:)
  have "map apt_id (drop 9998 (appointments s)) = drop 9998 (map apt_id (appointments s))"
    by (simp only: drop_map)
  also have "\<dots> = map appointment_id (drop 9998 [1..10000])"
    unfolding all by (simp only: drop_map)
  also have "\<dots> = [''APT9999'', ''APT10000'']"
    unfolding upto_tail by (simp add: appointment_id_9999 appointment_id_10000)
  finally have ids: "map apt_id (drop 9998 (appointments s)) = [''APT9999'', ''APT10000'']" .
  have order: "\<not> ''APT9999'' < ''APT10000''" by simp
  from ids order show ?thesis unfolding s_def by (intro conjI)
qed

section \<open>The slots of booked appointments\<close>

lemma store_invariantI:
  "distinct (map doc_id (doctors s))
   \<Longrightarrow> (\<And>d. d \<in> set (doctors s) \<Longrightarrow> distinct (available_slots d))
   \<Longrightarrow> (\<And>d. d \<in> set (doctors s) \<Longrightarrow> [] \<notin> set (available_slots d))
   \<Longrightarrow> (\<And>apt. apt \<in> set (appointments s) \<Longrightarrow> appointment_time apt \<noteq> [])
   \<Longrightarrow> (\<And>apt d. apt \<in> set (appointments s) \<Longrightarrow> active apt \<Longrightarrow> d \<in> set (doctors s)
         \<Longrightarrow> doc_id d = doctor_id apt \<Longrightarrow> appointment_time apt \<notin> set (available_slots d))
   \<Longrightarrow> distinct (map (\<lambda>apt. (doctor_id apt, appointment_time apt))
                     (filter active (appointments s)))
   \<Longrightarrow> store_invariant s"
  unfolding store_invariant_def booked_slots_unavailable_def by blast

lemma store_invariantD:
  assumes "store_invariant s"
  shows "distinct (map doc_id (doctors s))"
    and "\<And>d. d \<in> set (doctors s) \<Longrightarrow> distinct (available_slots d)"
    and "\<And>d. d \<in> set (doctors s) \<Longrightarrow> [] \<notin> set (available_slots d)"
    and "\<And>apt. apt \<in> set (appointments s) \<Longrightarrow> appointment_time apt \<noteq> []"
    and "\<And>apt d. apt \<in> set (appointments s) \<Longrightarrow> active apt \<Longrightarrow> d \<in> set (doctors s)
         \<Longrightarrow> doc_id d = doctor_id apt \<Longrightarrow> appointment_time apt \<notin> set (available_slots d)"
    and "distinct (map (\<lambda>apt. (doctor_id apt, appointment_time apt))
                     (filter active (appointments s)))"
  using assms unfolding store_invariant_def booked_slots_unavailable_def by blast+

lemma invariant_remove_slot:
  assumes inv: "store_invariant s" and ds: "doctors s = pre @ d # post"
  shows "store_invariant
           (s\<lparr>doctors := pre @ d\<lparr>available_slots := remove1 x (available_slots d)\<rparr> # post\<rparr>)"
proof (rule store_invariantI)
  let ?d' = "d\<lparr>available_slots := remove1 x (available_slots d)\<rparr>"
  let ?s' = "s\<lparr>doctors := pre @ ?d' # post\<rparr>"
  note D = store_invariantD[OF inv]
  have dmem: "d \<in> set (doctors s)" using ds by simp
  have old: "e \<in> set (doctors s)" if "e \<in> set pre \<or> e \<in> set post" for e
    using that ds by auto
  show "distinct (map doc_id (doctors ?s'))"
    using D(1) ds by simp
  show "distinct (available_slots e)" if "e \<in> set (doctors ?s')" for e
  proof -
    from that consider "e = ?d'" | "e \<in> set pre \<or> e \<in> set post" by auto
    then show ?thesis
    proof cases
      case 1
      then show ?thesis using D(2)[OF dmem] by simp
    next
      case 2
      then show ?thesis using D(2)[OF old] by blast
    qed
  qed
  show "[] \<notin> set (available_slots e)" if "e \<in> set (doctors ?s')" for e
  proof -
    from that consider "e = ?d'" | "e \<in> set pre \<or> e \<in> set post" by auto
    then show ?thesis
    proof cases
      case 1
      then show ?thesis using D(3)[OF dmem] notin_set_remove1 by fastforce
    next
      case 2
      then show ?thesis using D(3)[OF old] by blast
    qed
  qed
  show "appointment_time apt \<noteq> []" if "apt \<in> set (appointments ?s')" for apt
    using that D(4) by simp
  show "appointment_time apt \<notin> set (available_slots e)"
    if "apt \<in> set (appointments ?s')" "active apt" "e \<in> set (doctors ?s')"
      "doc_id e = doctor_id apt" for apt e
  proof -
    from that(1) have a: "apt \<in> set (appointments s)" by simp
    from that(3) consider "e = ?d'" | "e \<in> set pre \<or> e \<in> set post" by auto
    then show ?thesis
    proof cases
      case 1
      then have "doc_id d = doctor_id apt" using that(4) by simp
      then have "appointment_time apt \<notin> set (available_slots d)"
        using D(5)[OF a that(2) dmem] by simp
      then show ?thesis using 1 notin_set_remove1 by fastforce
    next
      case 2
      then show ?thesis using D(5)[OF a that(2) old that(4)] by blast
    qed
  qed
  show "distinct (map (\<lambda>apt. (doctor_id apt, appointment_time apt))
                     (filter active (appointments ?s')))"
    using D(6) by simp
qed


lemma invariant_book:
  assumes inv: "store_invariant s" and ds: "doctors s = pre @ d # post"
    and sl: "sl \<in> set (available_slots d)"
    and a: "doctor_id a = doc_id d" "appointment_time a = sl"
  shows "store_invariant
           (s\<lparr>doctors := pre @ d\<lparr>available_slots := remove1 sl (available_slots d)\<rparr> # post,
              appointments := appointments s @ [a],
              appointment_counter := c\<rparr>)"
proof (rule store_invariantI)
  let ?d' = "d\<lparr>available_slots := remove1 sl (available_slots d)\<rparr>"
  let ?t = "s\<lparr>doctors := pre @ ?d' # post\<rparr>"
  let ?s' = "s\<lparr>doctors := pre @ ?d' # post, appointments := appointments s @ [a],
               appointment_counter := c\<rparr>"
  note D = store_invariantD[OF inv]
  note T = store_invariantD[OF invariant_remove_slot[OF inv ds, of sl]]
  have dmem: "d \<in> set (doctors s)" using ds by simp
  have dt: "doctors ?s' = doctors ?t" by simp
  have at: "appointments ?t = appointments s" by simp
  have "doc_id d \<notin> doc_id ` set pre" "doc_id d \<notin> doc_id ` set post"
    using D(1) unfolding ds by auto
  then have others: "doc_id e \<noteq> doc_id d" if "e \<in> set pre \<or> e \<in> set post" for e
    using that by (metis imageI)
  show "distinct (map doc_id (doctors ?s'))"
    using T(1) by simp
  show "distinct (available_slots e)" if "e \<in> set (doctors ?s')" for e
    using that T(2)[of e] by simp
  show "[] \<notin> set (available_slots e)" if "e \<in> set (doctors ?s')" for e
    using that T(3)[of e] by simp
  show "appointment_time apt \<noteq> []" if "apt \<in> set (appointments ?s')" for apt
  proof -
    from that consider "apt \<in> set (appointments s)" | "apt = a" by auto
    then show ?thesis
    proof cases
      case 1
      then show ?thesis by (rule D(4))
    next
      case 2
      then show ?thesis using a(2) sl D(3)[OF dmem] by auto
    qed
  qed
  show "appointment_time apt \<notin> set (available_slots e)"
    if "apt \<in> set (appointments ?s')" "active apt" "e \<in> set (doctors ?s')"
      "doc_id e = doctor_id apt" for apt e
  proof -
    from that(3) have e: "e \<in> set (doctors ?t)" by simp
    from that(1) consider "apt \<in> set (appointments s)" | "apt = a" by auto
    then show ?thesis
    proof cases
      case 1
      then have "apt \<in> set (appointments ?t)" by simp
      then show ?thesis using T(5)[OF _ that(2) e that(4)] by blast
    next
      case 2
      from e consider "e = ?d'" | "e \<in> set pre \<or> e \<in> set post" by auto
      then show ?thesis
      proof cases
        case 1
        have "sl \<notin> set (remove1 sl (available_slots d))"
          using D(2)[OF dmem] by simp
        with 1 \<open>apt = a\<close> a(2) show ?thesis by simp
      next
        case 2
        with others[of e] that(4) \<open>apt = a\<close> a(1) show ?thesis by simp
      qed
    qed
  qed
  show "distinct (map (\<lambda>apt. (doctor_id apt, appointment_time apt))
                     (filter active (appointments ?s')))"
  proof -
    have fresh: "(doctor_id a, appointment_time a)
        \<notin> (\<lambda>apt. (doctor_id apt, appointment_time apt)) ` set (filter active (appointments s))"
    proof
      assume "(doctor_id a, appointment_time a)
        \<in> (\<lambda>apt. (doctor_id apt, appointment_time apt)) ` set (filter active (appointments s))"
      then obtain b where b: "b \<in> set (appointments s)" "active b"
          "doctor_id b = doctor_id a" "appointment_time b = appointment_time a"
        by auto
      from D(5)[OF b(1,2) dmem] b(3,4) a sl show False by simp
    qed
    show ?thesis using D(6) fresh by (cases "active a") simp_all
  qed
qed

lemma release_slot_ids: "map doc_id (release_slot ds did slot) = map doc_id ds"
  by (induction ds) auto

lemma release_slot_member:
  "e \<in> set (release_slot ds did slot) \<Longrightarrow>
   e \<in> set ds
   \<or> (\<exists>d\<in>set ds. doc_id d = did
         \<and> e = d\<lparr>available_slots := sort (available_slots d @ [slot])\<rparr>)"
proof (induction ds)
  case Nil
  then show ?case by simp
next
  case (Cons d ds)
  show ?case
  proof (cases "doc_id d = did")
    case True
    with Cons.prems have "e = d\<lparr>available_slots := sort (available_slots d @ [slot])\<rparr> \<or> e \<in> set ds"
      by simp
    with True show ?thesis by auto
  next
    case False
    with Cons.prems have "e = d \<or> e \<in> set (release_slot ds did slot)" by simp
    with Cons.IH show ?thesis by auto
  qed
qed

lemma invariant_cancel:
  assumes inv: "store_invariant s" and apps: "appointments s = apre @ a # apost"
    and act: "active a"
  shows "store_invariant
           (s\<lparr>doctors := release_slot (doctors s) (doctor_id a) (appointment_time a),
              appointments := apre @ a\<lparr>status := CANCELLED\<rparr> # apost\<rparr>)"
proof (rule store_invariantI)
  let ?t = "appointment_time a"
  let ?a' = "a\<lparr>status := CANCELLED\<rparr>"
  let ?ds' = "release_slot (doctors s) (doctor_id a) ?t"
  let ?s' = "s\<lparr>doctors := ?ds', appointments := apre @ ?a' # apost\<rparr>"
  let ?key = "\<lambda>apt. (doctor_id apt, appointment_time apt)"
  note D = store_invariantD[OF inv]
  have amem: "a \<in> set (appointments s)" using apps by simp
  have old_apt: "apt \<in> set (appointments s)" if "apt \<in> set apre \<or> apt \<in> set apost" for apt
    using that apps by auto
  have inactive: "\<not> active ?a'" by (simp add: active_def)
  have t_free: "?t \<notin> set (available_slots d)"
    if "d \<in> set (doctors s)" "doc_id d = doctor_id a" for d
    using D(5)[OF amem act that] .
  have new_doc: "e \<in> set (doctors s)
      \<or> (\<exists>d\<in>set (doctors s). doc_id d = doctor_id a
            \<and> e = d\<lparr>available_slots := sort (available_slots d @ [?t])\<rparr>)"
    if "e \<in> set (doctors ?s')" for e
    using that release_slot_member[of e "doctors s" "doctor_id a" ?t] by simp
  have old_active: "filter active (appointments s)
      = filter active apre @ a # filter active apost"
    using apps act by simp
  have new_active: "filter active (appointments ?s')
      = filter active apre @ filter active apost"
    using inactive by simp
  have key_fresh: "?key a \<notin> ?key ` (set (filter active apre) \<union> set (filter active apost))"
    using D(6) unfolding old_active by auto
  show "distinct (map doc_id (doctors ?s'))"
    using D(1) by (simp add: release_slot_ids)
  show "distinct (available_slots e)" if "e \<in> set (doctors ?s')" for e
    using new_doc[OF that]
  proof
    assume "e \<in> set (doctors s)"
    then show ?thesis by (rule D(2))
  next
    assume "\<exists>d\<in>set (doctors s). doc_id d = doctor_id a
            \<and> e = d\<lparr>available_slots := sort (available_slots d @ [?t])\<rparr>"
    then obtain d where d: "d \<in> set (doctors s)" "doc_id d = doctor_id a"
        "e = d\<lparr>available_slots := sort (available_slots d @ [?t])\<rparr>"
      by blast
    then show ?thesis using D(2)[OF d(1)] t_free[OF d(1,2)] by simp
  qed
  show "[] \<notin> set (available_slots e)" if "e \<in> set (doctors ?s')" for e
    using new_doc[OF that]
  proof
    assume "e \<in> set (doctors s)"
    then show ?thesis by (rule D(3))
  next
    assume "\<exists>d\<in>set (doctors s). doc_id d = doctor_id a
            \<and> e = d\<lparr>available_slots := sort (available_slots d @ [?t])\<rparr>"
    then obtain d where d: "d \<in> set (doctors s)" "doc_id d = doctor_id a"
        "e = d\<lparr>available_slots := sort (available_slots d @ [?t])\<rparr>"
      by blast
    then show ?thesis using D(3)[OF d(1)] D(4)[OF amem] by auto
  qed
  show "appointment_time apt \<noteq> []" if "apt \<in> set (appointments ?s')" for apt
  proof -
    from that consider "apt = ?a'" | "apt \<in> set apre \<or> apt \<in> set apost" by auto
    then show ?thesis
    proof cases
      case 1
      then show ?thesis using D(4)[OF amem] by simp
    next
      case 2
      then show ?thesis using D(4)[OF old_apt] by blast
    qed
  qed
  show "appointment_time apt \<notin> set (available_slots e)"
    if "apt \<in> set (appointments ?s')" "active apt" "e \<in> set (doctors ?s')"
      "doc_id e = doctor_id apt" for apt e
  proof -
    from that(1,2) inactive have side: "apt \<in> set apre \<or> apt \<in> set apost" by auto
    then have apt: "apt \<in> set (appointments s)" by (rule old_apt)
    from new_doc[OF that(3)] show ?thesis
    proof
      assume "e \<in> set (doctors s)"
      then show ?thesis using D(5)[OF apt that(2) _ that(4)] by blast
    next
      assume "\<exists>d\<in>set (doctors s). doc_id d = doctor_id a
            \<and> e = d\<lparr>available_slots := sort (available_slots d @ [?t])\<rparr>"
      then obtain d where d: "d \<in> set (doctors s)" "doc_id d = doctor_id a"
          "e = d\<lparr>available_slots := sort (available_slots d @ [?t])\<rparr>"
        by blast
      from d(3) that(4) have same: "doc_id d = doctor_id apt" by simp
      have not_old: "appointment_time apt \<notin> set (available_slots d)"
        using D(5)[OF apt that(2) d(1) same] .
      have "apt \<in> set (filter active apre) \<union> set (filter active apost)"
        using side that(2) by auto
      then have mem: "?key apt \<in> ?key ` (set (filter active apre) \<union> set (filter active apost))"
        by (rule imageI)
      have "appointment_time apt \<noteq> ?t"
      proof
        assume "appointment_time apt = ?t"
        with same d(2) have "?key apt = ?key a" by simp
        with mem key_fresh show False by simp
      qed
      with not_old d(3) show ?thesis by simp
    qed
  qed
  show "distinct (map ?key (filter active (appointments ?s')))"
    using D(6) unfolding old_active new_active by simp
qed

lemma reserve_slot_invariant:
  assumes inv: "store_invariant s"
  shows "store_invariant (snd (reserve_slot s did slot))"
proof (cases "\<exists>d\<in>set (doctors s). doc_id d = did \<and> slot \<in> set (available_slots d)")
  case False
  then have "reserve_slot_loop (doctors s) did slot = (SlotNotAvailable, doctors s)"
    by (intro reserve_slot_loop_none) blast
  then have "snd (reserve_slot s did slot) = s"
    by (simp add: reserve_slot_def)
  with inv show ?thesis by simp
next
  case True
  let ?P = "\<lambda>d. doc_id d = did \<and> slot \<in> set (available_slots d)"
  from True have "\<exists>pre d post. doctors s = pre @ d # post \<and> ?P d \<and> (\<forall>e\<in>set pre. \<not> ?P e)"
    by (rule split_list_first_prop)
  then obtain pre d post where ds: "doctors s = pre @ d # post"
      and d: "doc_id d = did" "slot \<in> set (available_slots d)"
      and pre: "\<forall>e\<in>set pre. \<not> (doc_id e = did \<and> slot \<in> set (available_slots e))"
    by blast
  have "snd (reserve_slot s did slot)
      = s\<lparr>doctors := pre @ d\<lparr>available_slots := remove1 slot (available_slots d)\<rparr> # post\<rparr>"
    using reserve_slot_loop_first[OF pre d, of post] ds by (simp add: reserve_slot_def)
  with invariant_remove_slot[OF inv ds, of slot] show ?thesis by simp
qed

lemma book_appointment_invariant:
  assumes inv: "store_invariant s"
  shows "store_invariant (snd (book_appointment s pname sp_opt pt phone))"
  using book_appointment_cases[of s pname sp_opt pt phone]
proof (elim disjE conjE exE)
  assume "book_appointment s pname sp_opt pt phone = (NoDoctorsAvailable sp_opt, s)"
  with inv show ?thesis by simp
next
  assume "book_appointment s pname sp_opt pt phone = (NoMatchingAppointments, s)"
  with inv show ?thesis by simp
next
  fix doctor sl ds'
  assume loop: "book_loop (candidate sp_opt) pt (doctors s) = Some (doctor, sl, ds')"
    and res: "book_appointment s pname sp_opt pt phone =
            (AppointmentBooked (new_appointment (appointment_counter s) doctor pname phone sl),
             s\<lparr>doctors := ds',
               appointments := appointments s
                 @ [new_appointment (appointment_counter s) doctor pname phone sl],
               appointment_counter := appointment_counter s + 1\<rparr>)"
  let ?a = "new_appointment (appointment_counter s) doctor pname phone sl"
  from book_loop_Some[OF loop] obtain pre post where ds: "doctors s = pre @ doctor # post"
      and sel: "select_slot pt (available_slots doctor) = Some sl"
      and ds': "ds' = pre @ doctor\<lparr>available_slots := remove1 sl (available_slots doctor)\<rparr> # post"
    by blast
  from sel have sl: "sl \<in> set (available_slots doctor)" by (rule select_slot_in_set)
  have a: "doctor_id ?a = doc_id doctor" "appointment_time ?a = sl"
    by (simp_all add: new_appointment_def)
  from invariant_book[OF inv ds sl a, of "appointment_counter s + 1"] res ds'
  show ?thesis by simp
qed

lemma cancel_appointment_invariant:
  assumes inv: "store_invariant s"
  shows "store_invariant (snd (cancel_appointment s aid))"
proof (cases "\<exists>a\<in>set (appointments s). apt_id a = aid")
  case False
  then have "cancel_loop (appointments s) (doctors s) aid
      = (AppointmentNotFound aid, appointments s, doctors s)"
    by (intro cancel_loop_none) blast
  then have "snd (cancel_appointment s aid) = s"
    by (simp add: cancel_appointment_def)
  with inv show ?thesis by simp
next
  case True
  then have "\<exists>pre a post. appointments s = pre @ a # post \<and> apt_id a = aid
      \<and> (\<forall>b\<in>set pre. \<not> apt_id b = aid)"
    by (rule split_list_first_prop)
  then obtain pre a post where apps: "appointments s = pre @ a # post"
      and a: "apt_id a = aid" and pre: "\<forall>b\<in>set pre. apt_id b \<noteq> aid"
    by blast
  note loop = cancel_loop_first[OF pre a, of post "doctors s"]
  show ?thesis
  proof (cases "status a = CANCELLED")
    case True
    with loop apps have "snd (cancel_appointment s aid) = s"
      by (simp add: cancel_appointment_def)
    with inv show ?thesis by simp
  next
    case False
    then have act: "active a" by (simp add: active_def)
    from False loop apps have "snd (cancel_appointment s aid)
        = s\<lparr>doctors := release_slot (doctors s) (doctor_id a) (appointment_time a),
            appointments := pre @ a\<lparr>status := CANCELLED\<rparr> # post\<rparr>"
      by (simp add: cancel_appointment_def)
    with invariant_cancel[OF inv apps act] show ?thesis by simp
  qed
qed

lemma call_tool_invariant:
  "store_invariant s \<Longrightarrow> store_invariant (snd (call_tool s c))"
  by (cases c)
     (simp_all add: reserve_slot_invariant book_appointment_invariant cancel_appointment_invariant)

lemma call_tools_invariant:
  "store_invariant s \<Longrightarrow> store_invariant (snd (call_tools s cs))"
proof (induction cs arbitrary: s)
  case Nil
  then show ?case by simp
next
  case (Cons c cs)
  obtain r s1 where step: "call_tool s c = (r, s1)" by (cases "call_tool s c")
  obtain rs s2 where rest: "call_tools s1 cs = (rs, s2)" by (cases "call_tools s1 cs")
  from Cons.prems have "store_invariant (snd (call_tool s c))" by (rule call_tool_invariant)
  then have "store_invariant s1" using step by simp
  then have "store_invariant (snd (call_tools s1 cs))" by (rule Cons.IH)
  then show ?case using step rest by simp
qed

lemma data_store_invariant: "store_invariant data_store"
  by code_simp

text \<open>
  C6. In every store that a sequence of tool calls (listing doctors, showing slots,
  reserving a slot, booking, listing appointments, cancelling) produces from the seeded
  store, the time of every appointment that is not cancelled is absent from the available
  slots of the doctor with the appointment's doctor id.
\<close>

theorem booked_slots_stay_unavailable:
  "\<forall>apt\<in>set (appointments (snd (call_tools data_store cs))).
     status apt \<noteq> CANCELLED \<longrightarrow>
       (\<forall>d\<in>set (doctors (snd (call_tools data_store cs))).
          doc_id d = doctor_id apt \<longrightarrow> appointment_time apt \<notin> set (available_slots d))"
proof -
  have "store_invariant (snd (call_tools data_store cs))"
    using data_store_invariant by (rule call_tools_invariant)
  then have "booked_slots_unavailable (snd (call_tools data_store cs))"
    by (simp add: store_invariant_def)
  then show ?thesis
    by (simp add: booked_slots_unavailable_def active_def)
qed

theorem booked_slots_stay_unavailable_witness:
  "status (appointments (snd (call_tools data_store book_cancel_book)) ! 1) = SCHEDULED
   \<and> doctor_id (appointments (snd (call_tools data_store book_cancel_book)) ! 1) = ''dr001''
   \<and> appointment_time (appointments (snd (call_tools data_store book_cancel_book)) ! 1)
       = ''2025-05-29 09:00''
   \<and> doc_id (hd (doctors (snd (call_tools data_store book_cancel_book)))) = ''dr001''
   \<and> ''2025-05-29 09:00''
       \<notin> set (available_slots (hd (doctors (snd (call_tools data_store book_cancel_book)))))"
proof -
  let ?s = "snd (call_tools data_store book_cancel_book)"
  let ?apt = "appointments ?s ! 1"
  let ?d = "hd (doctors ?s)"
  have apt: "?apt \<in> set (appointments ?s)" by code_simp
  have d: "?d \<in> set (doctors ?s)" by code_simp
  have st: "status ?apt = SCHEDULED" by code_simp
  have did: "doctor_id ?apt = ''dr001''" by code_simp
  have tm: "appointment_time ?apt = ''2025-05-29 09:00''" by code_simp
  have doc: "doc_id ?d = ''dr001''" by code_simp
  from booked_slots_stay_unavailable[of book_cancel_book] apt st
  have "\<forall>d\<in>set (doctors ?s). doc_id d = doctor_id ?apt
      \<longrightarrow> appointment_time ?apt \<notin> set (available_slots d)"
    by simp
  with d did doc have "appointment_time ?apt \<notin> set (available_slots ?d)"
    by simp
  with tm have "''2025-05-29 09:00'' \<notin> set (available_slots ?d)" by simp
  with st did tm doc show ?thesis by (intro conjI)
qed

end
